theory Spec2Isabelle
  imports Main "HOL-Library.Multiset"
begin

section \<open>Data model (models.py)\<close>

text \<open>
  Python strings are modelled as HOL strings: lists of characters, a character being
  a code point below 256. \<open>len\<close> is \<open>length\<close>, and \<open>str.upper\<close> /
  \<open>str.lower\<close> act on the ASCII letters and leave every other character as it is.

  A \<open>datetime.date\<close> is a triple of year, month and day, compared
  lexicographically, as Python compares dates.
\<close>

record date =
  year :: nat
  month :: nat
  day :: nat

definition date_less :: "date \<Rightarrow> date \<Rightarrow> bool" where
  "date_less a b =
     (year a < year b \<or>
      (year a = year b \<and> (month a < month b \<or> (month a = month b \<and> day a < day b))))"

definition digit_char :: "nat \<Rightarrow> char" where
  "digit_char n = ''0123456789'' ! (n mod 10)"

fun decimal :: "nat \<Rightarrow> string" where
  "decimal n = (if n < 10 then [digit_char n] else decimal (n div 10) @ [digit_char n])"

definition zero_pad :: "nat \<Rightarrow> nat \<Rightarrow> string" where
  "zero_pad width n = replicate (width - length (decimal n)) (CHR ''0'') @ decimal n"

definition isoformat :: "date \<Rightarrow> string" where
  "isoformat d = zero_pad 4 (year d) @ ''-'' @ zero_pad 2 (month d) @ ''-'' @ zero_pad 2 (day d)"

record CaseRecord =
  case_id :: string
  reporter_type :: "string option"
  onset_date :: "date option"
  reaction_reported_term :: "string option"
  meddra_level :: "string option"
  meddra_term_text :: "string option"
  meddra_code :: "string option"
  meddra_version :: "string option"
  seriousness :: "string option"
  suspect_drug :: "string option"
  dose_text :: "string option"
  outcome :: "string option"
  narrative :: "string option"
  raw_payload :: "string \<rightharpoonup> string"

text \<open>The field \<open>record\<close> of the source is \<open>result_record\<close> here.\<close>

record ValidationResult =
  result_record :: CaseRecord
  is_valid :: bool
  errors :: "string list"
  warnings :: "string list"

text \<open>
  \<open>_clean\<close> and \<open>CaseRecord.from_dict\<close>. \<open>str.strip\<close> removes the white space at
  both ends, white space being the characters for which \<open>str.isspace\<close> holds: among
  the code points below 256 these are U+0009 to U+000D, U+001C to U+001F, the space
  U+0020, the next-line character U+0085 and the no-break space U+00A0.
  \<open>datetime.strptime\<close> belongs to the standard library and is a parameter:
  \<open>strptime v fmt\<close> is the date read, or \<open>None\<close> where Python raises
  \<open>ValueError\<close>.
\<close>

definition is_space :: "char \<Rightarrow> bool" where
  "is_space c =
     (c \<in> set [CHR 0x09, CHR 0x0A, CHR 0x0B, CHR 0x0C, CHR 0x0D, CHR 0x1C, CHR 0x1D, CHR 0x1E,
                CHR 0x1F, CHR 0x20, CHR 0x85, CHR 0xA0])"

definition strip :: "string \<Rightarrow> string" where
  "strip s = rev (dropWhile is_space (rev (dropWhile is_space s)))"

definition clean :: "string option \<Rightarrow> string option" where
  "clean v =
     (case v of
        None \<Rightarrow> None
      | Some s \<Rightarrow> (let trimmed = strip s in if trimmed = [] then None else Some trimmed))"

definition DATE_FORMATS :: "string list" where
  "DATE_FORMATS = [''%Y-%m-%d'', ''%Y/%m/%d'', ''%d-%m-%Y'', ''%m/%d/%Y'']"

fun parse_date_loop :: "(string \<Rightarrow> string \<Rightarrow> date option) \<Rightarrow> string \<Rightarrow> string list \<Rightarrow> date option" where
  "parse_date_loop strptime v [] = None"
| "parse_date_loop strptime v (fmt # fmts) =
     (case strptime v fmt of Some d \<Rightarrow> Some d | None \<Rightarrow> parse_date_loop strptime v fmts)"

definition parse_date :: "(string \<Rightarrow> string \<Rightarrow> date option) \<Rightarrow> string \<Rightarrow> date option" where
  "parse_date strptime v = parse_date_loop strptime v DATE_FORMATS"

definition from_dict :: "(string \<Rightarrow> string \<Rightarrow> date option) \<Rightarrow> (string \<rightharpoonup> string) \<Rightarrow> CaseRecord" where
  "from_dict strptime payload =
     (let r = \<lparr>case_id = strip (case payload ''case_id'' of None \<Rightarrow> [] | Some s \<Rightarrow> s),
               reporter_type = clean (payload ''reporter_type''),
               onset_date = None,
               reaction_reported_term = clean (payload ''reaction_reported_term''),
               meddra_level = clean (payload ''meddra_level''),
               meddra_term_text = clean (payload ''meddra_term_text''),
               meddra_code = clean (payload ''meddra_code''),
               meddra_version = clean (payload ''meddra_version''),
               seriousness = clean (payload ''seriousness''),
               suspect_drug = clean (payload ''suspect_drug''),
               dose_text = clean (payload ''dose_text''),
               outcome = clean (payload ''outcome''),
               narrative = clean (payload ''narrative''),
               raw_payload = payload\<rparr>
      in case clean (payload ''onset_date'') of
           Some onset_date_raw \<Rightarrow> r\<lparr>onset_date := parse_date strptime onset_date_raw\<rparr>
         | None \<Rightarrow> r)"

section \<open>Validation rules (validation/rules.py)\<close>

text \<open>Truth value of an \<open>Optional[str]\<close>: \<open>None\<close> and the empty string are false.\<close>

definition truthy :: "string option \<Rightarrow> bool" where
  "truthy v = (case v of None \<Rightarrow> False | Some s \<Rightarrow> s \<noteq> [])"

definition upper_char :: "char \<Rightarrow> char" where
  "upper_char c =
     (case map_of (zip ''abcdefghijklmnopqrstuvwxyz'' ''ABCDEFGHIJKLMNOPQRSTUVWXYZ'') c of
        Some u \<Rightarrow> u | None \<Rightarrow> c)"

definition lower_char :: "char \<Rightarrow> char" where
  "lower_char c =
     (case map_of (zip ''ABCDEFGHIJKLMNOPQRSTUVWXYZ'' ''abcdefghijklmnopqrstuvwxyz'') c of
        Some l \<Rightarrow> l | None \<Rightarrow> c)"

definition upper :: "string \<Rightarrow> string" where
  "upper s = map upper_char s"

definition lower :: "string \<Rightarrow> string" where
  "lower s = map lower_char s"

text \<open>
  \<open>REQUIRED_FIELDS\<close> is a tuple of attribute names read with \<open>getattr\<close>. The four
  names are a datatype, \<open>field_name\<close> gives the string the message prints, and
  \<open>getattr_truthy\<close> is the truth value of the attribute (\<open>case_id\<close> is a string,
  \<open>onset_date\<close> an optional date, which is true whenever it is present).
\<close>

datatype required_field = F_case_id | F_reaction_reported_term | F_meddra_level | F_onset_date

definition REQUIRED_FIELDS :: "required_field list" where
  "REQUIRED_FIELDS = [F_case_id, F_reaction_reported_term, F_meddra_level, F_onset_date]"

fun field_name :: "required_field \<Rightarrow> string" where
  "field_name F_case_id = ''case_id''"
| "field_name F_reaction_reported_term = ''reaction_reported_term''"
| "field_name F_meddra_level = ''meddra_level''"
| "field_name F_onset_date = ''onset_date''"

fun getattr_truthy :: "CaseRecord \<Rightarrow> required_field \<Rightarrow> bool" where
  "getattr_truthy r F_case_id = (case_id r \<noteq> [])"
| "getattr_truthy r F_reaction_reported_term = truthy (reaction_reported_term r)"
| "getattr_truthy r F_meddra_level = truthy (meddra_level r)"
| "getattr_truthy r F_onset_date = (onset_date r \<noteq> None)"

definition ALLOWED_MEDDRA_LEVELS :: "string set" where
  "ALLOWED_MEDDRA_LEVELS = {''LLT'', ''PT''}"

definition MIN_ONSET_DATE :: date where
  "MIN_ONSET_DATE = \<lparr>year = 1970, month = 1, day = 1\<rparr>"

text \<open>The messages, as the f-strings of the source build them.\<close>

definition quoted :: "string \<Rightarrow> string" where
  "quoted s = [CHR 0x27] @ s @ [CHR 0x27]"

definition msg_missing :: "required_field \<Rightarrow> string" where
  "msg_missing f = ''Missing required field '' @ quoted (field_name f)"

definition msg_earlier :: "date \<Rightarrow> string" where
  "msg_earlier d =
     ''onset_date '' @ isoformat d @ '' is earlier than '' @ isoformat MIN_ONSET_DATE"

definition msg_future :: "date \<Rightarrow> date \<Rightarrow> string" where
  "msg_future today d =
     ''onset_date '' @ isoformat d @ '' is in the future (>'' @ isoformat today @ '')''"

definition msg_unparsed :: "string \<Rightarrow> string" where
  "msg_unparsed raw =
     ''onset_date '' @ quoted raw @ '' could not be parsed; expected YYYY-MM-DD''"

definition msg_level :: "string \<Rightarrow> string" where
  "msg_level l =
     ''meddra_level '' @ quoted l @ '' must be one of ['' @ quoted ''LLT'' @ '', ''
       @ quoted ''PT'' @ '']''"

definition msg_pair :: string where
  "msg_pair = ''meddra_term_text and meddra_code must be provided together''"

definition msg_narrative :: string where
  "msg_narrative = ''narrative exceeds 4000 character limit''"

definition msg_seriousness :: "string \<Rightarrow> string" where
  "msg_seriousness s =
     ''seriousness '' @ quoted s @ '' not recognized; expected '' @ quoted ''Serious''
       @ '' or '' @ quoted ''Non-serious''"

text \<open>
  \<open>CaseValidator.validate\<close>, one definition per block of the method, in the order
  of the source. \<open>today\<close> is the validator's reference date.
\<close>

definition required_errors :: "CaseRecord \<Rightarrow> string list" where
  "required_errors r =
     concat (map (\<lambda>f. if \<not> getattr_truthy r f then [msg_missing f] else []) REQUIRED_FIELDS)"

definition onset_errors :: "date \<Rightarrow> CaseRecord \<Rightarrow> string list" where
  "onset_errors today r =
     (case onset_date r of
        Some d \<Rightarrow>
          (if date_less d MIN_ONSET_DATE then [msg_earlier d] else []) @
          (if date_less today d then [msg_future today d] else [])
      | None \<Rightarrow>
          (case raw_payload r ''onset_date'' of
             Some raw \<Rightarrow> if raw \<noteq> [] then [msg_unparsed raw] else []
           | None \<Rightarrow> []))"

definition level_errors :: "CaseRecord \<Rightarrow> string list" where
  "level_errors r =
     (case meddra_level r of
        Some l \<Rightarrow> if l \<noteq> [] \<and> upper l \<notin> ALLOWED_MEDDRA_LEVELS then [msg_level l] else []
      | None \<Rightarrow> [])"

definition pair_errors :: "CaseRecord \<Rightarrow> string list" where
  "pair_errors r =
     (let has_text = truthy (meddra_term_text r); has_code = truthy (meddra_code r)
      in if has_text \<noteq> has_code then [msg_pair] else [])"

definition narrative_errors :: "CaseRecord \<Rightarrow> string list" where
  "narrative_errors r =
     (case narrative r of
        Some n \<Rightarrow> if n \<noteq> [] \<and> length n > 4000 then [msg_narrative] else []
      | None \<Rightarrow> [])"

definition seriousness_warnings :: "CaseRecord \<Rightarrow> string list" where
  "seriousness_warnings r =
     (let seriousness_value = (case seriousness r of Some s \<Rightarrow> s | None \<Rightarrow> [])
      in if seriousness_value \<noteq> [] \<and> lower seriousness_value \<notin> {''serious'', ''non-serious''}
         then [msg_seriousness seriousness_value] else [])"

definition validate :: "date \<Rightarrow> CaseRecord \<Rightarrow> ValidationResult" where
  "validate today r =
     (let errs = required_errors r @ onset_errors today r @ level_errors r @ pair_errors r
                   @ narrative_errors r;
          warns = seriousness_warnings r
      in \<lparr>result_record = r, is_valid = (errs = []), errors = errs, warnings = warns\<rparr>)"

definition validate_many :: "date \<Rightarrow> CaseRecord list \<Rightarrow> ValidationResult list" where
  "validate_many today records = map (validate today) records"

section \<open>Job queue (queue/job_queue.py)\<close>

text \<open>
  A \<open>JobItem\<close> is created by \<open>enqueue\<close> only and is held by one container at a
  time (the queue, the dead-letter list, the report), so the in-place updates of
  \<open>requeue\<close> are updates of a value. The field \<open>record\<close> of the source is
  \<open>job_record\<close> here; \<open>_queue\<close> and \<open>_dead_letter\<close> are \<open>queue\<close> and
  \<open>dead_letter\<close>.
\<close>

record JobItem =
  job_record :: CaseRecord
  attempts :: int
  max_attempts :: int
  error_messages :: "string list"

definition is_exhausted :: "JobItem \<Rightarrow> bool" where
  "is_exhausted job = (attempts job \<ge> max_attempts job)"

text \<open>\<open>JobItem(record=record)\<close>, with the defaults of the dataclass.\<close>

definition JobItem_new :: "CaseRecord \<Rightarrow> JobItem" where
  "JobItem_new r = \<lparr>job_record = r, attempts = 0, max_attempts = 3, error_messages = []\<rparr>"

record JobQueue =
  queue :: "JobItem list"
  dead_letter :: "JobItem list"

definition JobQueue_new :: JobQueue where
  "JobQueue_new = \<lparr>queue = [], dead_letter = []\<rparr>"

definition enqueue :: "JobQueue \<Rightarrow> CaseRecord \<Rightarrow> JobQueue" where
  "enqueue Q r = Q\<lparr>queue := queue Q @ [JobItem_new r]\<rparr>"

definition dequeue :: "JobQueue \<Rightarrow> JobItem option \<times> JobQueue" where
  "dequeue Q = (case queue Q of [] \<Rightarrow> (None, Q) | job # rest \<Rightarrow> (Some job, Q\<lparr>queue := rest\<rparr>))"

text \<open>The job after the two updates \<open>requeue\<close> makes to it.\<close>

definition bump :: "JobItem \<Rightarrow> string \<Rightarrow> JobItem" where
  "bump job error_message =
     job\<lparr>attempts := attempts job + 1, error_messages := error_messages job @ [error_message]\<rparr>"

definition requeue :: "JobQueue \<Rightarrow> JobItem \<Rightarrow> string \<Rightarrow> JobQueue" where
  "requeue Q job error_message =
     (let job' = bump job error_message
      in if is_exhausted job' then Q\<lparr>dead_letter := dead_letter Q @ [job']\<rparr>
         else Q\<lparr>queue := queue Q @ [job']\<rparr>)"

section \<open>Orchestrator (orchestration/orchestrator.py)\<close>

record ProcessingReport =
  success_count :: int
  retry_count :: int
  failed_jobs :: "JobItem list"
  validation_errors :: "ValidationResult list"

definition ProcessingReport_new :: ProcessingReport where
  "ProcessingReport_new =
     \<lparr>success_count = 0, retry_count = 0, failed_jobs = [], validation_errors = []\<rparr>"

definition total_attempted :: "ProcessingReport \<Rightarrow> int" where
  "total_attempted report =
     success_count report + retry_count report + int (length (failed_jobs report))"

text \<open>
  The worker is outside the core. A call of \<open>process_job\<close> returns a boolean or
  raises; the worker may keep state of its own (type \<open>'w\<close>), and it reads the job
  without changing it, as the workers of the repository do.
\<close>

datatype outcome = Returned bool | Raised

type_synonym 'w worker = "'w \<Rightarrow> JobItem \<Rightarrow> outcome \<times> 'w"

text \<open>
  \<open>Orchestrator.__init__\<close>: \<open>queue or JobQueue()\<close>. A \<open>JobQueue\<close> has
  \<open>__len__\<close>, so a queue with no pending job counts as false and is replaced by a
  new one.
\<close>

definition Orchestrator_queue :: "JobQueue option \<Rightarrow> JobQueue" where
  "Orchestrator_queue q =
     (case q of None \<Rightarrow> JobQueue_new | Some Q \<Rightarrow> if queue Q = [] then JobQueue_new else Q)"

fun enqueue_valid_loop ::
  "ValidationResult list \<Rightarrow> JobQueue \<Rightarrow> ProcessingReport \<Rightarrow> JobQueue \<times> ProcessingReport" where
  "enqueue_valid_loop [] Q report = (Q, report)"
| "enqueue_valid_loop (result # results) Q report =
     (if is_valid result then enqueue_valid_loop results (enqueue Q (result_record result)) report
      else enqueue_valid_loop results Q
             (report\<lparr>validation_errors := validation_errors report @ [result]\<rparr>))"

definition enqueue_valid :: "JobQueue \<Rightarrow> ValidationResult list \<Rightarrow> JobQueue \<times> ProcessingReport" where
  "enqueue_valid Q validation_results = enqueue_valid_loop validation_results Q ProcessingReport_new"

definition retry_message :: string where
  "retry_message = ''worker requested retry''"

text \<open>
  The \<open>while True\<close> loop of \<open>run\<close>. Every pass removes the head of the queue; only a
  retryable failure puts the job back, one attempt nearer to its maximum, so the sum
  of \<open>1 + (max_attempts - attempts)\<close> over the queue decreases.
\<close>

definition budget :: "JobItem \<Rightarrow> nat" where
  "budget job = Suc (nat (max_attempts job - attempts job))"

function drain ::
  "'w worker \<Rightarrow> 'w \<Rightarrow> JobQueue \<Rightarrow> ProcessingReport \<Rightarrow> 'w \<times> JobQueue \<times> ProcessingReport" where
  "drain process_job w Q report =
     (case dequeue Q of
        (None, Q') \<Rightarrow> (w, Q', report)
      | (Some job, Q') \<Rightarrow>
          (case process_job w job of
             (Raised, w') \<Rightarrow>
               drain process_job w' Q' (report\<lparr>failed_jobs := failed_jobs report @ [job]\<rparr>)
           | (Returned success, w') \<Rightarrow>
               if success
               then drain process_job w' Q' (report\<lparr>success_count := success_count report + 1\<rparr>)
               else drain process_job w' (requeue Q' job retry_message)
                      (report\<lparr>retry_count := retry_count report + 1\<rparr>)))"
  by pat_completeness auto
termination
  by (relation "measure (\<lambda>(process_job, w, Q, report). sum_list (map budget (queue Q)))")
     (auto simp: dequeue_def requeue_def bump_def is_exhausted_def budget_def Let_def
           split: list.splits)

definition run ::
  "'w worker \<Rightarrow> 'w \<Rightarrow> JobQueue \<Rightarrow> ValidationResult list \<Rightarrow> 'w \<times> JobQueue \<times> ProcessingReport" where
  "run process_job w Q validation_results =
     (case enqueue_valid Q validation_results of
        (Q1, report) \<Rightarrow>
          (case drain process_job w Q1 report of
             (w', Q2, report') \<Rightarrow>
               (w', Q2, report'\<lparr>failed_jobs := failed_jobs report' @ dead_letter Q2\<rparr>)))"

section \<open>Observing the worker's calls\<close>

text \<open>
  \<open>spy process_job\<close> is the worker \<open>process_job\<close> that also writes down every call it
  receives, with the job as it was passed and the outcome. The log a run leaves in
  such a worker is the sequence of dispatches of that run.
\<close>

definition spy :: "'w worker \<Rightarrow> ((JobItem \<times> outcome) list \<times> 'w) worker" where
  "spy process_job =
     (\<lambda>(log, w) job. case process_job w job of (out, w') \<Rightarrow> (out, (log @ [(job, out)], w')))"

definition dispatch_log ::
  "'w worker \<Rightarrow> 'w \<Rightarrow> JobQueue \<Rightarrow> ValidationResult list \<Rightarrow> (JobItem \<times> outcome) list" where
  "dispatch_log process_job w Q validation_results =
     fst (fst (run (spy process_job) ([], w) Q validation_results))"

definition final_report ::
  "'w worker \<Rightarrow> 'w \<Rightarrow> JobQueue \<Rightarrow> ValidationResult list \<Rightarrow> ProcessingReport" where
  "final_report process_job w Q validation_results =
     snd (snd (run process_job w Q validation_results))"

definition final_queue ::
  "'w worker \<Rightarrow> 'w \<Rightarrow> JobQueue \<Rightarrow> ValidationResult list \<Rightarrow> JobQueue" where
  "final_queue process_job w Q validation_results =
     fst (snd (run process_job w Q validation_results))"

text \<open>
  The queue and the report after one pass of the loop, by the outcome of the call,
  and the calls of the loop as a function of the queue it starts from.
\<close>

definition after_dispatch :: "JobQueue \<Rightarrow> JobItem \<Rightarrow> outcome \<Rightarrow> JobQueue" where
  "after_dispatch Q' job out =
     (case out of Returned False \<Rightarrow> requeue Q' job retry_message | _ \<Rightarrow> Q')"

definition report_after :: "ProcessingReport \<Rightarrow> JobItem \<Rightarrow> outcome \<Rightarrow> ProcessingReport" where
  "report_after rep job out =
     (case out of
        Raised \<Rightarrow> rep\<lparr>failed_jobs := failed_jobs rep @ [job]\<rparr>
      | Returned True \<Rightarrow> rep\<lparr>success_count := success_count rep + 1\<rparr>
      | Returned False \<Rightarrow> rep\<lparr>retry_count := retry_count rep + 1\<rparr>)"

function dispatches :: "'w worker \<Rightarrow> 'w \<Rightarrow> JobQueue \<Rightarrow> (JobItem \<times> outcome) list" where
  "dispatches process_job w Q =
     (case dequeue Q of
        (None, Q') \<Rightarrow> []
      | (Some job, Q') \<Rightarrow>
          (case process_job w job of
             (out, w') \<Rightarrow> (job, out) # dispatches process_job w' (after_dispatch Q' job out)))"
  by pat_completeness auto
termination
  by (relation "measure (\<lambda>(process_job, w, Q). sum_list (map budget (queue Q)))")
     (auto simp: dequeue_def requeue_def bump_def is_exhausted_def budget_def Let_def
           after_dispatch_def
           split: list.splits outcome.splits bool.splits)

definition raised_jobs :: "(JobItem \<times> outcome) list \<Rightarrow> JobItem list" where
  "raised_jobs log = map fst (filter (\<lambda>e. snd e = Raised) log)"

definition succeeded_jobs :: "(JobItem \<times> outcome) list \<Rightarrow> JobItem list" where
  "succeeded_jobs log = map fst (filter (\<lambda>e. snd e = Returned True) log)"

definition retried_jobs :: "(JobItem \<times> outcome) list \<Rightarrow> JobItem list" where
  "retried_jobs log = map fst (filter (\<lambda>e. snd e = Returned False) log)"

definition dead_jobs :: "(JobItem \<times> outcome) list \<Rightarrow> JobItem list" where
  "dead_jobs log = filter is_exhausted (map (\<lambda>j. bump j retry_message) (retried_jobs log))"

text \<open>The records \<open>enqueue_valid\<close> puts on the queue, in order.\<close>

definition valid_records :: "ValidationResult list \<Rightarrow> CaseRecord list" where
  "valid_records results = map result_record (filter is_valid results)"

text \<open>
  The calls a single job can receive: it is dispatched as it stands; after a retryable
  failure that does not exhaust it, the calls of the job \<open>requeue\<close> put back follow;
  after any other outcome there is no further call.
\<close>

fun lifecycle :: "JobItem \<Rightarrow> (JobItem \<times> outcome) list \<Rightarrow> bool" where
  "lifecycle j [] = False"
| "lifecycle j ((j', out) # es) =
     (j' = j \<and>
      (if out = Returned False \<and> \<not> is_exhausted (bump j retry_message)
       then lifecycle (bump j retry_message) es else es = []))"

text \<open>The queue after the enqueue phase, and after it on a new queue.\<close>

definition loaded :: "JobQueue \<Rightarrow> ValidationResult list \<Rightarrow> JobQueue" where
  "loaded Q results = Q\<lparr>queue := queue Q @ map JobItem_new (valid_records results)\<rparr>"

definition new_queue :: "ValidationResult list \<Rightarrow> JobQueue" where
  "new_queue results = \<lparr>queue = map JobItem_new (valid_records results), dead_letter = []\<rparr>"

text \<open>
  A batch: one \<open>run\<close> of an orchestrator built with the default queue,
  \<open>Orchestrator(worker)\<close>.
\<close>

definition batch_log :: "'w worker \<Rightarrow> 'w \<Rightarrow> ValidationResult list \<Rightarrow> (JobItem \<times> outcome) list" where
  "batch_log process_job w validation_results =
     dispatch_log process_job w (Orchestrator_queue None) validation_results"

definition batch_report :: "'w worker \<Rightarrow> 'w \<Rightarrow> ValidationResult list \<Rightarrow> ProcessingReport" where
  "batch_report process_job w validation_results =
     final_report process_job w (Orchestrator_queue None) validation_results"

definition batch_queue :: "'w worker \<Rightarrow> 'w \<Rightarrow> ValidationResult list \<Rightarrow> JobQueue" where
  "batch_queue process_job w validation_results =
     final_queue process_job w (Orchestrator_queue None) validation_results"

text \<open>The jobs \<open>requeue\<close> appended to the queue again, as it left them.\<close>

definition requeued_jobs :: "(JobItem \<times> outcome) list \<Rightarrow> JobItem list" where
  "requeued_jobs log =
     filter (\<lambda>j. \<not> is_exhausted j) (map (\<lambda>j. bump j retry_message) (retried_jobs log))"

text \<open>The job of a record after \<open>k\<close> calls of \<open>requeue\<close> by the loop.\<close>

definition job_after :: "CaseRecord \<Rightarrow> nat \<Rightarrow> JobItem" where
  "job_after r k =
     \<lparr>job_record = r, attempts = int k, max_attempts = 3,
      error_messages = replicate k retry_message\<rparr>"

text \<open>
  The jobs of a batch by their number. \<open>enqueue\<close> makes a new object for every
  valid result, so two jobs are two objects even when their records are equal; the
  number of a job is its position among the jobs enqueued. \<open>tagged_dispatches\<close>
  is the loop of calls again, on a queue whose jobs carry their number; \<open>requeue\<close>
  puts the same object back, so the number stays with the job. Without the numbers
  it is \<open>dispatches\<close> (lemma \<open>tagged_erase\<close>).
\<close>

definition requeued :: "JobItem \<Rightarrow> outcome \<Rightarrow> JobItem list" where
  "requeued job out =
     (if out = Returned False \<and> \<not> is_exhausted (bump job retry_message)
      then [bump job retry_message] else [])"

function tagged_dispatches ::
  "'w worker \<Rightarrow> 'w \<Rightarrow> (nat \<times> JobItem) list \<Rightarrow> (nat \<times> JobItem \<times> outcome) list" where
  "tagged_dispatches process_job w [] = []"
| "tagged_dispatches process_job w ((i, job) # rest) =
     (i, job, fst (process_job w job)) #
       tagged_dispatches process_job (snd (process_job w job))
         (rest @ map (Pair i) (requeued job (fst (process_job w job))))"
  by pat_completeness auto
termination
  by (relation "measure (\<lambda>(process_job, w, q). sum_list (map (\<lambda>e. budget (snd e)) q))")
     (auto simp: requeued_def bump_def is_exhausted_def budget_def)

definition tagged_log ::
  "'w worker \<Rightarrow> 'w \<Rightarrow> ValidationResult list \<Rightarrow> (nat \<times> JobItem \<times> outcome) list" where
  "tagged_log process_job w validation_results =
     tagged_dispatches process_job w
       (List.enumerate 0 (map JobItem_new (valid_records validation_results)))"

text \<open>The calls for job \<open>i\<close>; the jobs that ended as failures or successes, numbered.\<close>

definition calls_of :: "nat \<Rightarrow> (nat \<times> JobItem \<times> outcome) list \<Rightarrow> (JobItem \<times> outcome) list" where
  "calls_of i tlog = map snd (filter (\<lambda>e. fst e = i) tlog)"

definition tagged_raised :: "(nat \<times> JobItem \<times> outcome) list \<Rightarrow> (nat \<times> JobItem) list" where
  "tagged_raised tlog = map (\<lambda>e. (fst e, fst (snd e))) (filter (\<lambda>e. snd (snd e) = Raised) tlog)"

definition tagged_dead :: "(nat \<times> JobItem \<times> outcome) list \<Rightarrow> (nat \<times> JobItem) list" where
  "tagged_dead tlog =
     filter (\<lambda>e. is_exhausted (snd e))
       (map (\<lambda>e. (fst e, bump (fst (snd e)) retry_message))
          (filter (\<lambda>e. snd (snd e) = Returned False) tlog))"

definition tagged_failed :: "(nat \<times> JobItem \<times> outcome) list \<Rightarrow> (nat \<times> JobItem) list" where
  "tagged_failed tlog = tagged_raised tlog @ tagged_dead tlog"

definition tagged_succeeded :: "(nat \<times> JobItem \<times> outcome) list \<Rightarrow> (nat \<times> JobItem) list" where
  "tagged_succeeded tlog =
     map (\<lambda>e. (fst e, fst (snd e))) (filter (\<lambda>e. snd (snd e) = Returned True) tlog)"

text \<open>The errors that are about the onset date: all of them start with the field's name.\<close>

definition about_onset_date :: "string \<Rightarrow> bool" where
  "about_onset_date e = (take 11 e = ''onset_date '')"

text \<open>The errors that are about the MedDRA level start with that field's name.\<close>

definition about_meddra_level :: "string \<Rightarrow> bool" where
  "about_meddra_level e = (take 13 e = ''meddra_level '')"

text \<open>Sample data for the concrete instances below.\<close>

definition sample_record :: CaseRecord where
  "sample_record =
     \<lparr>case_id = ''C-001'', reporter_type = None,
      onset_date = Some \<lparr>year = 2024, month = 5, day = 17\<rparr>,
      reaction_reported_term = Some ''Headache'', meddra_level = Some ''pt'',
      meddra_term_text = Some ''Headache'', meddra_code = Some ''10019211'',
      meddra_version = None, seriousness = Some ''Serious'', suspect_drug = None,
      dose_text = None, outcome = None, narrative = None,
      raw_payload = [''case_id'' \<mapsto> ''C-001'', ''onset_date'' \<mapsto> ''2024-05-17'']\<rparr>"

definition sample_today :: date where
  "sample_today = \<lparr>year = 2025, month = 1, day = 31\<rparr>"

definition second_record :: CaseRecord where
  "second_record = sample_record\<lparr>case_id := ''C-002''\<rparr>"

definition sample_results :: "ValidationResult list" where
  "sample_results =
     validate_many sample_today [sample_record, second_record, sample_record\<lparr>case_id := []\<rparr>]"

text \<open>
  Workers for the instances: one that answers from a script, outcome by outcome, and
  succeeds once the script is used up; one that always asks for a retry; one that
  asks for a retry on the jobs of one record and succeeds on the others.
\<close>

fun scripted :: "outcome list worker" where
  "scripted [] job = (Returned True, [])"
| "scripted (out # script) job = (out, script)"

definition always_retry :: "unit worker" where
  "always_retry w job = (Returned False, w)"

definition retry_for :: "CaseRecord \<Rightarrow> unit worker" where
  "retry_for r w job = (Returned (job_record job \<noteq> r), w)"

declare drain.simps [simp del] dispatches.simps [simp del]

section \<open>The validator\<close>

lemma errors_validate:
  "errors (validate today r) =
     required_errors r @ onset_errors today r @ level_errors r @ pair_errors r @ narrative_errors r"
  by (simp add: validate_def Let_def)

lemma is_valid_validate: "is_valid (validate today r) = (errors (validate today r) = [])"
  by (simp add: validate_def Let_def)

lemma warnings_validate: "warnings (validate today r) = seriousness_warnings r"
  by (simp add: validate_def Let_def)

lemma errors_ignore_seriousness:
  "errors (validate today (r\<lparr>seriousness := v\<rparr>)) = errors (validate today r)"
proof -
  have "getattr_truthy (r\<lparr>seriousness := v\<rparr>) f = getattr_truthy r f" for f
    by (cases f) simp_all
  then have "required_errors (r\<lparr>seriousness := v\<rparr>) = required_errors r"
    by (simp add: required_errors_def)
  then show ?thesis
    by (simp add: errors_validate onset_errors_def level_errors_def pair_errors_def
          narrative_errors_def split: option.splits)
qed

text \<open>
  C5. A result is valid exactly when its list of errors is empty. The errors, and so
  the validity, do not depend on the seriousness field, the only source of warnings;
  a seriousness that is not empty and, in lower case, neither \<open>serious\<close> nor
  \<open>non-serious\<close> gives exactly one warning.
\<close>

theorem valid_iff_no_errors:
  "is_valid (validate today r) = (errors (validate today r) = []) \<and>
   errors (validate today (r\<lparr>seriousness := v\<rparr>)) = errors (validate today r) \<and>
   is_valid (validate today (r\<lparr>seriousness := v\<rparr>)) = is_valid (validate today r) \<and>
   (seriousness r = Some s \<and> s \<noteq> [] \<and> lower s \<notin> {''serious'', ''non-serious''} \<longrightarrow>
      warnings (validate today r) = [msg_seriousness s])"
  by (simp add: is_valid_validate errors_ignore_seriousness warnings_validate
        seriousness_warnings_def)

lemmas validate_defs =
  validate_def required_errors_def onset_errors_def level_errors_def pair_errors_def
  narrative_errors_def seriousness_warnings_def REQUIRED_FIELDS_def ALLOWED_MEDDRA_LEVELS_def
  MIN_ONSET_DATE_def date_less_def truthy_def upper_def lower_def upper_char_def
  lower_char_def sample_record_def sample_today_def Let_def

theorem valid_iff_no_errors_witness:
  "seriousness (sample_record\<lparr>seriousness := Some ''unsure''\<rparr>) = Some ''unsure'' \<and>
   ''unsure'' \<noteq> [] \<and> lower ''unsure'' \<notin> {''serious'', ''non-serious''} \<and>
   warnings (validate sample_today (sample_record\<lparr>seriousness := Some ''unsure''\<rparr>))
     = [msg_seriousness ''unsure''] \<and>
   errors (validate sample_today (sample_record\<lparr>seriousness := Some ''unsure''\<rparr>)) = [] \<and>
   is_valid (validate sample_today (sample_record\<lparr>seriousness := Some ''unsure''\<rparr>))"
  using valid_iff_no_errors [of sample_today "sample_record\<lparr>seriousness := Some ''unsure''\<rparr>"
      "Some ''unsure''" "''unsure''"]
  by (simp add: validate_defs)

subsection \<open>Telling the messages apart\<close>

lemma about_onset_date_simps:
  "\<not> about_onset_date (msg_missing f)"
  "about_onset_date (msg_earlier d)"
  "about_onset_date (msg_future today d)"
  "about_onset_date (msg_unparsed raw)"
  "\<not> about_onset_date (msg_level l)"
  "\<not> about_onset_date msg_pair"
  "\<not> about_onset_date msg_narrative"
  by (simp_all add: about_onset_date_def msg_missing_def msg_earlier_def msg_future_def
        msg_unparsed_def msg_level_def msg_pair_def msg_narrative_def)

lemma filter_required: "filter about_onset_date (required_errors r) = []"
  by (simp add: required_errors_def REQUIRED_FIELDS_def about_onset_date_simps)

lemma filter_level: "filter about_onset_date (level_errors r) = []"
  by (simp add: level_errors_def about_onset_date_simps split: option.splits)

lemma filter_pair: "filter about_onset_date (pair_errors r) = []"
  by (simp add: pair_errors_def about_onset_date_simps Let_def)

lemma filter_narrative: "filter about_onset_date (narrative_errors r) = []"
  by (simp add: narrative_errors_def about_onset_date_simps split: option.splits)

lemma filter_onset: "filter about_onset_date (onset_errors today r) = onset_errors today r"
  by (simp add: onset_errors_def about_onset_date_simps split: option.splits)

lemma onset_part: "filter about_onset_date (errors (validate today r)) = onset_errors today r"
  by (simp add: errors_validate filter_required filter_level filter_pair filter_narrative
        filter_onset)

lemma earlier_neq_future: "msg_earlier d \<noteq> msg_future today d"
  by (simp add: msg_earlier_def msg_future_def)

lemma msg_missing_inj: "(msg_missing f = msg_missing g) = (f = g)"
  by (cases f; cases g) (simp_all add: msg_missing_def quoted_def)

lemma msg_missing_neq:
  "msg_missing f \<noteq> msg_earlier d"
  "msg_missing f \<noteq> msg_future today d"
  "msg_missing f \<noteq> msg_unparsed raw"
  "msg_missing f \<noteq> msg_level l"
  "msg_missing f \<noteq> msg_pair"
  "msg_missing f \<noteq> msg_narrative"
  by (simp_all add: msg_missing_def msg_earlier_def msg_future_def
        msg_unparsed_def msg_level_def msg_pair_def msg_narrative_def)

lemma msg_pair_neq:
  "msg_pair \<noteq> msg_missing f"
  "msg_pair \<noteq> msg_earlier d"
  "msg_pair \<noteq> msg_future today d"
  "msg_pair \<noteq> msg_unparsed raw"
  "msg_pair \<noteq> msg_level l"
  "msg_pair \<noteq> msg_narrative"
  by (simp_all add: msg_missing_def msg_earlier_def msg_future_def
        msg_unparsed_def msg_level_def msg_pair_def msg_narrative_def)

lemma msg_narrative_neq:
  "msg_narrative \<noteq> msg_missing f"
  "msg_narrative \<noteq> msg_earlier d"
  "msg_narrative \<noteq> msg_future today d"
  "msg_narrative \<noteq> msg_unparsed raw"
  "msg_narrative \<noteq> msg_level l"
  "msg_narrative \<noteq> msg_pair"
  by (simp_all add: msg_missing_def msg_earlier_def msg_future_def
        msg_unparsed_def msg_level_def msg_pair_def msg_narrative_def)

lemma not_about_count: "filter about_onset_date xs = [] \<Longrightarrow> about_onset_date e \<Longrightarrow> count_list xs e = 0"
  by (auto simp: filter_empty_conv)

subsection \<open>The onset date\<close>

text \<open>
  C6. Among the errors of a record, those about the onset date are: for a parsed
  date, one error when it is before 1970-01-01 and another, different one when it is
  after the reference date, so none when it lies between the two, bounds included;
  for an absent date with a raw string that is not empty, the error that the string
  could not be parsed.
\<close>

theorem onset_date_rule:
  "(onset_date r = Some d \<longrightarrow>
      filter about_onset_date (errors (validate today r)) =
        (if date_less d MIN_ONSET_DATE then [msg_earlier d] else []) @
        (if date_less today d then [msg_future today d] else []) \<and>
      msg_earlier d \<noteq> msg_future today d) \<and>
   (onset_date r = None \<and> raw_payload r ''onset_date'' = Some raw \<and> raw \<noteq> [] \<longrightarrow>
      filter about_onset_date (errors (validate today r)) = [msg_unparsed raw])"
  by (simp add: onset_part onset_errors_def earlier_neq_future)

theorem onset_date_rule_witness:
  "onset_date (sample_record\<lparr>onset_date := Some \<lparr>year = 1969, month = 12, day = 31\<rparr>\<rparr>)
     = Some \<lparr>year = 1969, month = 12, day = 31\<rparr> \<and>
   filter about_onset_date
     (errors (validate sample_today
        (sample_record\<lparr>onset_date := Some \<lparr>year = 1969, month = 12, day = 31\<rparr>\<rparr>)))
     = [msg_earlier \<lparr>year = 1969, month = 12, day = 31\<rparr>] \<and>
   filter about_onset_date
     (errors (validate sample_today (sample_record\<lparr>onset_date := Some sample_today\<rparr>))) = [] \<and>
   filter about_onset_date
     (errors (validate sample_today (sample_record\<lparr>onset_date := Some MIN_ONSET_DATE\<rparr>))) = [] \<and>
   filter about_onset_date
     (errors (validate sample_today
        (sample_record\<lparr>onset_date := Some \<lparr>year = 2025, month = 2, day = 1\<rparr>\<rparr>)))
     = [msg_future sample_today \<lparr>year = 2025, month = 2, day = 1\<rparr>] \<and>
   onset_date (sample_record\<lparr>onset_date := None\<rparr>) = None \<and>
   raw_payload (sample_record\<lparr>onset_date := None\<rparr>) ''onset_date'' = Some ''2024-05-17'' \<and>
   filter about_onset_date (errors (validate sample_today (sample_record\<lparr>onset_date := None\<rparr>)))
     = [msg_unparsed ''2024-05-17'']"
  using
    onset_date_rule [of "sample_record\<lparr>onset_date := Some \<lparr>year = 1969, month = 12, day = 31\<rparr>\<rparr>"
      "\<lparr>year = 1969, month = 12, day = 31\<rparr>" sample_today]
    onset_date_rule [of "sample_record\<lparr>onset_date := Some sample_today\<rparr>" sample_today sample_today]
    onset_date_rule [of "sample_record\<lparr>onset_date := Some MIN_ONSET_DATE\<rparr>" MIN_ONSET_DATE
      sample_today]
    onset_date_rule [of "sample_record\<lparr>onset_date := Some \<lparr>year = 2025, month = 2, day = 1\<rparr>\<rparr>"
      "\<lparr>year = 2025, month = 2, day = 1\<rparr>" sample_today]
    onset_date_rule [of "sample_record\<lparr>onset_date := None\<rparr>" _ sample_today "''2024-05-17''"]
  by (simp add: sample_record_def sample_today_def MIN_ONSET_DATE_def date_less_def)

subsection \<open>The required fields\<close>

lemma count_required:
  "count_list (required_errors r) (msg_missing f) = (if getattr_truthy r f then 0 else 1)"
  by (cases f) (simp_all add: required_errors_def REQUIRED_FIELDS_def msg_missing_inj)

lemma count_onset_missing: "count_list (onset_errors today r) (msg_missing f) = 0"
  using msg_missing_neq [of f] by (auto simp: onset_errors_def split: option.splits)

lemma count_level_missing: "count_list (level_errors r) (msg_missing f) = 0"
  using msg_missing_neq [of f] by (auto simp: level_errors_def split: option.splits)

lemma count_pair_missing: "count_list (pair_errors r) (msg_missing f) = 0"
  using msg_missing_neq [of f] by (auto simp: pair_errors_def Let_def)

lemma count_narrative_missing: "count_list (narrative_errors r) (msg_missing f) = 0"
  using msg_missing_neq [of f] by (auto simp: narrative_errors_def split: option.splits)

lemma count_missing:
  "count_list (errors (validate today r)) (msg_missing f) = (if getattr_truthy r f then 0 else 1)"
  by (simp add: errors_validate count_required count_onset_missing count_level_missing
        count_pair_missing count_narrative_missing)

lemma pair_in_errors:
  "(msg_pair \<in> set (errors (validate today r))) =
     (truthy (meddra_term_text r) \<noteq> truthy (meddra_code r))"
proof -
  have "msg_pair \<notin> set (required_errors r)"
    using msg_pair_neq(1) by (auto simp: required_errors_def REQUIRED_FIELDS_def)
  moreover have "msg_pair \<notin> set (onset_errors today r)"
    using msg_pair_neq(2,3,4) by (auto simp: onset_errors_def split: option.splits)
  moreover have "msg_pair \<notin> set (level_errors r)"
    using msg_pair_neq(5) by (auto simp: level_errors_def split: option.splits)
  moreover have "msg_pair \<notin> set (narrative_errors r)"
    using msg_pair_neq(6) by (auto simp: narrative_errors_def split: option.splits)
  moreover have "(msg_pair \<in> set (pair_errors r)) =
      (truthy (meddra_term_text r) \<noteq> truthy (meddra_code r))"
    by (simp add: pair_errors_def Let_def)
  ultimately show ?thesis by (simp add: errors_validate)
qed

lemma narrative_in_errors:
  "(msg_narrative \<in> set (errors (validate today r))) =
     (\<exists>n. narrative r = Some n \<and> length n > 4000)"
proof -
  have "msg_narrative \<notin> set (required_errors r)"
    using msg_narrative_neq(1) by (auto simp: required_errors_def REQUIRED_FIELDS_def)
  moreover have "msg_narrative \<notin> set (onset_errors today r)"
    using msg_narrative_neq(2,3,4) by (auto simp: onset_errors_def split: option.splits)
  moreover have "msg_narrative \<notin> set (level_errors r)"
    using msg_narrative_neq(5) by (auto simp: level_errors_def split: option.splits)
  moreover have "msg_narrative \<notin> set (pair_errors r)"
    using msg_narrative_neq(6) by (auto simp: pair_errors_def Let_def)
  moreover have "(msg_narrative \<in> set (narrative_errors r)) =
      (\<exists>n. narrative r = Some n \<and> length n > 4000)"
    by (cases "narrative r") (auto simp: narrative_errors_def)
  ultimately show ?thesis by (simp add: errors_validate)
qed

lemma about_meddra_level_simps:
  "\<not> about_meddra_level (msg_missing f)"
  "\<not> about_meddra_level (msg_earlier d)"
  "\<not> about_meddra_level (msg_future today d)"
  "\<not> about_meddra_level (msg_unparsed raw)"
  "about_meddra_level (msg_level l)"
  "\<not> about_meddra_level msg_pair"
  "\<not> about_meddra_level msg_narrative"
  by (simp_all add: about_meddra_level_def msg_missing_def msg_earlier_def msg_future_def
        msg_unparsed_def msg_level_def msg_pair_def msg_narrative_def)

lemma level_part: "filter about_meddra_level (errors (validate today r)) = level_errors r"
proof -
  have "filter about_meddra_level (required_errors r) = []"
    by (simp add: required_errors_def REQUIRED_FIELDS_def about_meddra_level_simps)
  moreover have "filter about_meddra_level (onset_errors today r) = []"
    by (simp add: onset_errors_def about_meddra_level_simps split: option.splits)
  moreover have "filter about_meddra_level (level_errors r) = level_errors r"
    by (simp add: level_errors_def about_meddra_level_simps split: option.splits)
  moreover have "filter about_meddra_level (pair_errors r) = []"
    by (simp add: pair_errors_def about_meddra_level_simps Let_def)
  moreover have "filter about_meddra_level (narrative_errors r) = []"
    by (simp add: narrative_errors_def about_meddra_level_simps split: option.splits)
  ultimately show ?thesis by (simp add: errors_validate)
qed

lemma warnings_explicit:
  "warnings (validate today r) =
     (case seriousness r of
        Some s \<Rightarrow> if s \<noteq> [] \<and> lower s \<notin> {''serious'', ''non-serious''}
                  then [msg_seriousness s] else []
      | None \<Rightarrow> [])"
  by (simp add: warnings_validate seriousness_warnings_def Let_def split: option.splits)

text \<open>
  C7. No rule stops the others: every rule is evaluated and reports on its own. Each of
  the four required fields that is empty gives exactly one missing-field error,
  whatever the other rules report; the errors of the pairing rule and of the narrative
  rule are present exactly when their own condition holds; the errors about the MedDRA
  level are the one error of the level rule when the level is not empty and, in upper
  case, is neither LLT nor PT, and none otherwise; the errors about the onset date are
  those of the onset date rule; the warnings are those of the seriousness rule; and
  there is no other error. A record with no onset date and an empty reported term has
  the two missing-field errors, which differ, so at least two distinct errors.
\<close>

theorem rules_accumulate:
  "count_list (errors (validate today r)) (msg_missing f) = (if getattr_truthy r f then 0 else 1) \<and>
   set REQUIRED_FIELDS = UNIV \<and>
   (msg_pair \<in> set (errors (validate today r))) =
     (truthy (meddra_term_text r) \<noteq> truthy (meddra_code r)) \<and>
   (msg_narrative \<in> set (errors (validate today r))) =
     (\<exists>n. narrative r = Some n \<and> length n > 4000) \<and>
   (onset_date r = None \<and> \<not> truthy (reaction_reported_term r) \<longrightarrow>
      msg_missing F_onset_date \<in> set (errors (validate today r)) \<and>
      msg_missing F_reaction_reported_term \<in> set (errors (validate today r)) \<and>
      msg_missing F_onset_date \<noteq> msg_missing F_reaction_reported_term \<and>
      2 \<le> card (set (errors (validate today r)))) \<and>
   filter about_meddra_level (errors (validate today r)) =
     (case meddra_level r of
        Some l \<Rightarrow> if l \<noteq> [] \<and> upper l \<notin> ALLOWED_MEDDRA_LEVELS then [msg_level l] else []
      | None \<Rightarrow> []) \<and>
   filter about_onset_date (errors (validate today r)) =
     (case onset_date r of
        Some d \<Rightarrow>
          (if date_less d MIN_ONSET_DATE then [msg_earlier d] else []) @
          (if date_less today d then [msg_future today d] else [])
      | None \<Rightarrow>
          (case raw_payload r ''onset_date'' of
             Some raw \<Rightarrow> if raw \<noteq> [] then [msg_unparsed raw] else []
           | None \<Rightarrow> [])) \<and>
   warnings (validate today r) =
     (case seriousness r of
        Some s \<Rightarrow> if s \<noteq> [] \<and> lower s \<notin> {''serious'', ''non-serious''}
                  then [msg_seriousness s] else []
      | None \<Rightarrow> []) \<and>
   (\<forall>e \<in> set (errors (validate today r)).
      (\<exists>g. e = msg_missing g) \<or> about_onset_date e \<or> about_meddra_level e \<or>
      e = msg_pair \<or> e = msg_narrative)"
proof -
  have univ: "set REQUIRED_FIELDS = UNIV"
  proof -
    have "f \<in> set REQUIRED_FIELDS" for f
      by (cases f) (simp_all add: REQUIRED_FIELDS_def)
    then show ?thesis by auto
  qed
  have two: "2 \<le> card (set (errors (validate today r)))"
    if "onset_date r = None" "\<not> truthy (reaction_reported_term r)"
  proof -
    have a: "msg_missing F_onset_date \<in> set (errors (validate today r))"
      using that count_missing [of today r F_onset_date]
      by (metis count_list_0_iff getattr_truthy.simps(4) zero_neq_one)
    have b: "msg_missing F_reaction_reported_term \<in> set (errors (validate today r))"
      using that count_missing [of today r F_reaction_reported_term]
      by (metis count_list_0_iff getattr_truthy.simps(2) zero_neq_one)
    have "card {msg_missing F_onset_date, msg_missing F_reaction_reported_term}
            \<le> card (set (errors (validate today r)))"
      using a b by (intro card_mono) auto
    then show ?thesis by (simp add: msg_missing_inj)
  qed
  have mem: "msg_missing g \<in> set (errors (validate today r))" if "\<not> getattr_truthy r g" for g
    using that count_missing [of today r g] by (metis count_list_0_iff zero_neq_one)
  have c1: "count_list (errors (validate today r)) (msg_missing f) =
      (if getattr_truthy r f then 0 else 1)"
    by (rule count_missing)
  have c3: "(msg_pair \<in> set (errors (validate today r))) =
     (truthy (meddra_term_text r) \<noteq> truthy (meddra_code r))"
    by (rule pair_in_errors)
  have c4: "(msg_narrative \<in> set (errors (validate today r))) =
     (\<exists>n. narrative r = Some n \<and> length n > 4000)"
    by (rule narrative_in_errors)
  have c5: "onset_date r = None \<and> \<not> truthy (reaction_reported_term r) \<longrightarrow>
      msg_missing F_onset_date \<in> set (errors (validate today r)) \<and>
      msg_missing F_reaction_reported_term \<in> set (errors (validate today r)) \<and>
      msg_missing F_onset_date \<noteq> msg_missing F_reaction_reported_term \<and>
      2 \<le> card (set (errors (validate today r)))"
    using two mem [of F_onset_date] mem [of F_reaction_reported_term]
    by (simp add: msg_missing_inj)
  have c6: "filter about_meddra_level (errors (validate today r)) =
     (case meddra_level r of
        Some l \<Rightarrow> if l \<noteq> [] \<and> upper l \<notin> ALLOWED_MEDDRA_LEVELS then [msg_level l] else []
      | None \<Rightarrow> [])"
    by (simp add: level_part level_errors_def)
  have c7: "filter about_onset_date (errors (validate today r)) =
     (case onset_date r of
        Some d \<Rightarrow>
          (if date_less d MIN_ONSET_DATE then [msg_earlier d] else []) @
          (if date_less today d then [msg_future today d] else [])
      | None \<Rightarrow>
          (case raw_payload r ''onset_date'' of
             Some raw \<Rightarrow> if raw \<noteq> [] then [msg_unparsed raw] else []
           | None \<Rightarrow> []))"
    by (simp add: onset_part onset_errors_def)
  have c8: "warnings (validate today r) =
     (case seriousness r of
        Some s \<Rightarrow> if s \<noteq> [] \<and> lower s \<notin> {''serious'', ''non-serious''}
                  then [msg_seriousness s] else []
      | None \<Rightarrow> [])"
    by (rule warnings_explicit)
  have c9: "\<forall>e \<in> set (errors (validate today r)).
      (\<exists>g. e = msg_missing g) \<or> about_onset_date e \<or> about_meddra_level e \<or>
      e = msg_pair \<or> e = msg_narrative"
  proof
    fix e assume "e \<in> set (errors (validate today r))"
    then consider "e \<in> set (required_errors r)" | "e \<in> set (onset_errors today r)"
      | "e \<in> set (level_errors r)" | "e \<in> set (pair_errors r)" | "e \<in> set (narrative_errors r)"
      by (auto simp: errors_validate)
    then show "(\<exists>g. e = msg_missing g) \<or> about_onset_date e \<or> about_meddra_level e \<or>
      e = msg_pair \<or> e = msg_narrative"
    proof cases
      case 1
      then have "\<exists>g. e = msg_missing g"
        by (auto simp: required_errors_def split: if_splits)
      then show ?thesis by simp
    next
      case 2
      then have "e \<in> set (filter about_onset_date (onset_errors today r))"
        by (simp only: filter_onset)
      then show ?thesis by simp
    next
      case 3
      then have "about_meddra_level e"
        by (auto simp: level_errors_def about_meddra_level_simps split: option.splits if_splits)
      then show ?thesis by simp
    next
      case 4
      then have "e = msg_pair" by (auto simp: pair_errors_def Let_def split: if_splits)
      then show ?thesis by simp
    next
      case 5
      then have "e = msg_narrative"
        by (auto simp: narrative_errors_def split: option.splits if_splits)
      then show ?thesis by simp
    qed
  qed
  from c1 univ c3 c4 c5 c6 c7 c8 c9 show ?thesis by (intro conjI)
qed

theorem rules_accumulate_witness:
  "onset_date (sample_record\<lparr>onset_date := None, reaction_reported_term := Some []\<rparr>) = None \<and>
   \<not> truthy (reaction_reported_term
        (sample_record\<lparr>onset_date := None, reaction_reported_term := Some []\<rparr>)) \<and>
   msg_missing F_onset_date \<in> set (errors (validate sample_today
        (sample_record\<lparr>onset_date := None, reaction_reported_term := Some []\<rparr>))) \<and>
   msg_missing F_reaction_reported_term \<in> set (errors (validate sample_today
        (sample_record\<lparr>onset_date := None, reaction_reported_term := Some []\<rparr>))) \<and>
   2 \<le> card (set (errors (validate sample_today
        (sample_record\<lparr>onset_date := None, reaction_reported_term := Some []\<rparr>)))) \<and>
   filter about_meddra_level (errors (validate sample_today
        (sample_record\<lparr>meddra_level := Some ''SOC''\<rparr>))) = [msg_level ''SOC''] \<and>
   msg_level ''SOC'' \<in> set (errors (validate sample_today
        (sample_record\<lparr>meddra_level := Some ''SOC''\<rparr>))) \<and>
   filter about_meddra_level (errors (validate sample_today sample_record)) = [] \<and>
   warnings (validate sample_today (sample_record\<lparr>seriousness := Some ''unsure''\<rparr>)) =
     [msg_seriousness ''unsure'']"
proof -
  let ?r = "sample_record\<lparr>onset_date := None, reaction_reported_term := Some []\<rparr>"
  let ?s = "sample_record\<lparr>meddra_level := Some ''SOC''\<rparr>"
  have a: "onset_date ?r = None \<and> \<not> truthy (reaction_reported_term ?r) \<and>
      msg_missing F_onset_date \<in> set (errors (validate sample_today ?r)) \<and>
      msg_missing F_reaction_reported_term \<in> set (errors (validate sample_today ?r)) \<and>
      2 \<le> card (set (errors (validate sample_today ?r)))"
    using rules_accumulate [of sample_today ?r F_onset_date]
    by (simp add: truthy_def)
  have b: "filter about_meddra_level (errors (validate sample_today ?s)) = [msg_level ''SOC'']"
    using rules_accumulate [of sample_today ?s F_meddra_level]
    by (simp add: upper_def upper_char_def ALLOWED_MEDDRA_LEVELS_def)
  have "msg_level ''SOC'' \<in> set (filter about_meddra_level (errors (validate sample_today ?s)))"
    by (simp only: b list.set_intros)
  then have c: "msg_level ''SOC'' \<in> set (errors (validate sample_today ?s))"
    by simp
  have d: "filter about_meddra_level (errors (validate sample_today sample_record)) = []"
    using rules_accumulate [of sample_today sample_record F_meddra_level]
    by (simp add: sample_record_def upper_def upper_char_def ALLOWED_MEDDRA_LEVELS_def)
  have e: "warnings (validate sample_today (sample_record\<lparr>seriousness := Some ''unsure''\<rparr>)) =
     [msg_seriousness ''unsure'']"
    using rules_accumulate [of sample_today "sample_record\<lparr>seriousness := Some ''unsure''\<rparr>"
        F_meddra_level]
    by (simp add: lower_def lower_char_def)
  from a b c d e show ?thesis by (intro conjI) simp_all
qed

subsection \<open>A date that could not be parsed\<close>

lemma strip_examples:
  "strip (CHR 0xA0 # ''2024-05-17'') = ''2024-05-17''"
  "strip (CHR 0xA0 # ''ab'' @ [CHR 0x85]) = ''ab''"
  "strip '' 17 May '' = ''17 May''"
  by (simp_all add: strip_def is_space_def)

lemma from_dict_strips_no_break_space:
  "onset_date (from_dict strptime [''onset_date'' \<mapsto> CHR 0xA0 # ''2024-05-17'']) =
     parse_date strptime ''2024-05-17''"
  by (simp add: from_dict_def clean_def strip_def is_space_def Let_def)

lemma strip_Nil: "strip [] = []"
  by (simp add: strip_def)

lemma from_dict_onset_date:
  "onset_date (from_dict strptime payload) =
     (case clean (payload ''onset_date'') of None \<Rightarrow> None | Some v \<Rightarrow> parse_date strptime v)"
  by (simp add: from_dict_def Let_def split: option.splits)

lemma from_dict_raw_payload: "raw_payload (from_dict strptime payload) = payload"
  by (simp add: from_dict_def Let_def split: option.splits)

lemma count_unparsed:
  assumes "onset_date r = None" "raw_payload r ''onset_date'' = Some raw" "raw \<noteq> []"
  shows "count_list (errors (validate today r)) (msg_unparsed raw) = 1"
proof -
  have "count_list xs (msg_unparsed raw) = 0" if "filter about_onset_date xs = []" for xs
    using that by (rule not_about_count) (rule about_onset_date_simps)
  then show ?thesis
    using assms
    by (simp add: errors_validate filter_required filter_level filter_pair filter_narrative
          onset_errors_def)
qed

text \<open>
  C10. A record with no typed onset date whose raw payload has a non-empty
  \<open>onset_date\<close> string gets two errors for that field: the missing-field error and
  the could-not-be-parsed error, once each. \<open>from_dict\<close> builds such a record from
  every payload whose onset date string, stripped of the white space at both ends, is
  not empty and is rejected by all four formats.
\<close>

theorem unparsed_onset_date_two_errors:
  "(onset_date r = None \<and> raw_payload r ''onset_date'' = Some raw \<and> raw \<noteq> [] \<longrightarrow>
      count_list (errors (validate today r)) (msg_missing F_onset_date) = 1 \<and>
      count_list (errors (validate today r)) (msg_unparsed raw) = 1 \<and>
      msg_missing F_onset_date \<noteq> msg_unparsed raw) \<and>
   (payload ''onset_date'' = Some raw \<and> strip raw \<noteq> [] \<and>
    parse_date strptime (strip raw) = None \<longrightarrow>
      onset_date (from_dict strptime payload) = None \<and>
      count_list (errors (validate today (from_dict strptime payload)))
        (msg_missing F_onset_date) = 1 \<and>
      count_list (errors (validate today (from_dict strptime payload))) (msg_unparsed raw) = 1)"
proof -
  have rec: "count_list (errors (validate today r')) (msg_missing F_onset_date) = 1 \<and>
      count_list (errors (validate today r')) (msg_unparsed raw) = 1"
    if "onset_date r' = None" "raw_payload r' ''onset_date'' = Some raw" "raw \<noteq> []" for r'
    using that count_unparsed [OF that] by (simp add: count_missing)
  have built: "onset_date (from_dict strptime payload) = None \<and>
      raw_payload (from_dict strptime payload) ''onset_date'' = Some raw \<and> raw \<noteq> []"
    if "payload ''onset_date'' = Some raw" "strip raw \<noteq> []"
      "parse_date strptime (strip raw) = None"
    using that strip_Nil
    by (auto simp: from_dict_onset_date from_dict_raw_payload clean_def Let_def)
  have first: "onset_date r = None \<and> raw_payload r ''onset_date'' = Some raw \<and> raw \<noteq> [] \<longrightarrow>
      count_list (errors (validate today r)) (msg_missing F_onset_date) = 1 \<and>
      count_list (errors (validate today r)) (msg_unparsed raw) = 1 \<and>
      msg_missing F_onset_date \<noteq> msg_unparsed raw"
    using rec [of r] msg_missing_neq(3) [of F_onset_date raw] by simp
  have second: "payload ''onset_date'' = Some raw \<and> strip raw \<noteq> [] \<and>
      parse_date strptime (strip raw) = None \<longrightarrow>
      onset_date (from_dict strptime payload) = None \<and>
      count_list (errors (validate today (from_dict strptime payload)))
        (msg_missing F_onset_date) = 1 \<and>
      count_list (errors (validate today (from_dict strptime payload))) (msg_unparsed raw) = 1"
    using rec [of "from_dict strptime payload"] built by simp
  from first second show ?thesis by (rule conjI)
qed

theorem unparsed_onset_date_two_errors_witness:
  "onset_date (sample_record\<lparr>onset_date := None\<rparr>) = None \<and>
   raw_payload (sample_record\<lparr>onset_date := None\<rparr>) ''onset_date'' = Some ''2024-05-17'' \<and>
   count_list (errors (validate sample_today (sample_record\<lparr>onset_date := None\<rparr>)))
     (msg_missing F_onset_date) = 1 \<and>
   count_list (errors (validate sample_today (sample_record\<lparr>onset_date := None\<rparr>)))
     (msg_unparsed ''2024-05-17'') = 1 \<and>
   [''onset_date'' \<mapsto> '' 17 May ''] ''onset_date'' = Some '' 17 May '' \<and>
   strip '' 17 May '' = ''17 May'' \<and>
   parse_date (\<lambda>v fmt. None) (strip '' 17 May '') = None \<and>
   count_list (errors (validate sample_today
       (from_dict (\<lambda>v fmt. None) [''onset_date'' \<mapsto> '' 17 May ''])))
     (msg_missing F_onset_date) = 1 \<and>
   count_list (errors (validate sample_today
       (from_dict (\<lambda>v fmt. None) [''onset_date'' \<mapsto> '' 17 May ''])))
     (msg_unparsed '' 17 May '') = 1 \<and>
   strip (CHR 0xA0 # ''17 May'') = ''17 May'' \<and>
   onset_date (from_dict (\<lambda>v fmt. None) [''onset_date'' \<mapsto> CHR 0xA0 # ''17 May'']) = None \<and>
   count_list (errors (validate sample_today
       (from_dict (\<lambda>v fmt. None) [''onset_date'' \<mapsto> CHR 0xA0 # ''17 May''])))
     (msg_unparsed (CHR 0xA0 # ''17 May'')) = 1"
  using
    unparsed_onset_date_two_errors [where r = "sample_record\<lparr>onset_date := None\<rparr>"
      and raw = "''2024-05-17''" and today = sample_today]
    unparsed_onset_date_two_errors [where raw = "'' 17 May ''"
      and payload = "[''onset_date'' \<mapsto> '' 17 May '']" and today = sample_today
      and strptime = "\<lambda>v fmt. None"]
    unparsed_onset_date_two_errors [where raw = "CHR 0xA0 # ''17 May''"
      and payload = "[''onset_date'' \<mapsto> CHR 0xA0 # ''17 May'']" and today = sample_today
      and strptime = "\<lambda>v fmt. None"]
  by (simp add: sample_record_def strip_def is_space_def parse_date_def DATE_FORMATS_def)

section \<open>The drain loop\<close>

text \<open>One pass of the loop, and induction along the passes.\<close>

lemma drain_Nil: "queue Q = [] \<Longrightarrow> drain f w Q rep = (w, Q, rep)"
  by (subst drain.simps) (simp add: dequeue_def)

lemma drain_Cons:
  "queue Q = j # js \<Longrightarrow>
   drain f w Q rep =
     drain f (snd (f w j)) (after_dispatch (Q\<lparr>queue := js\<rparr>) j (fst (f w j)))
       (report_after rep j (fst (f w j)))"
  by (subst drain.simps)
     (simp add: dequeue_def after_dispatch_def report_after_def
           split: prod.splits outcome.splits bool.splits)

lemma dispatches_Nil: "queue Q = [] \<Longrightarrow> dispatches f w Q = []"
  by (subst dispatches.simps) (simp add: dequeue_def)

lemma dispatches_Cons:
  "queue Q = j # js \<Longrightarrow>
   dispatches f w Q =
     (j, fst (f w j)) #
       dispatches f (snd (f w j)) (after_dispatch (Q\<lparr>queue := js\<rparr>) j (fst (f w j)))"
  by (subst dispatches.simps) (simp add: dequeue_def split: prod.splits)

lemma budget_after_dispatch:
  "sum_list (map budget (queue (after_dispatch (Q\<lparr>queue := js\<rparr>) j out)))
     < sum_list (map budget (j # js))"
  by (auto simp: after_dispatch_def requeue_def bump_def is_exhausted_def budget_def Let_def
           split: outcome.splits bool.splits)

lemma queue_induct [case_names Nil Cons]:
  assumes "\<And>w Q. queue Q = [] \<Longrightarrow> P w Q"
    and "\<And>w Q j js. queue Q = j # js \<Longrightarrow>
           P (snd (f w j)) (after_dispatch (Q\<lparr>queue := js\<rparr>) j (fst (f w j))) \<Longrightarrow> P w Q"
  shows "P w Q"
proof (induction "sum_list (map budget (queue Q))" arbitrary: w Q rule: less_induct)
  case less
  show ?case
  proof (cases "queue Q")
    case Nil
    then show ?thesis by (rule assms(1))
  next
    case (Cons j js)
    have "sum_list (map budget (queue (after_dispatch (Q\<lparr>queue := js\<rparr>) j (fst (f w j)))))
            < sum_list (map budget (queue Q))"
      using budget_after_dispatch [where Q = Q and js = js and j = j] Cons by simp
    then have "P (snd (f w j)) (after_dispatch (Q\<lparr>queue := js\<rparr>) j (fst (f w j)))"
      by (rule less)
    with Cons show ?thesis by (rule assms(2))
  qed
qed

text \<open>The queue and the report the loop ends with, read off the calls it made.\<close>

lemma drain_final:
  "snd (drain f w Q rep) =
     (Q\<lparr>queue := [], dead_letter := dead_letter Q @ dead_jobs (dispatches f w Q)\<rparr>,
      rep\<lparr>success_count := success_count rep + int (length (succeeded_jobs (dispatches f w Q))),
          retry_count := retry_count rep + int (length (retried_jobs (dispatches f w Q))),
          failed_jobs := failed_jobs rep @ raised_jobs (dispatches f w Q)\<rparr>)"
proof (induction w Q arbitrary: rep rule: queue_induct [where f = f])
  case (Nil w Q)
  then show ?case
    by (simp add: drain_Nil dispatches_Nil dead_jobs_def raised_jobs_def succeeded_jobs_def
          retried_jobs_def)
next
  case (Cons w Q j js)
  show ?case
    apply (simp only: drain_Cons [OF Cons.hyps] dispatches_Cons [OF Cons.hyps] Cons.IH)
    apply (cases "fst (f w j)")
    subgoal for b
      by (cases b)
         (simp_all add: after_dispatch_def report_after_def requeue_def Let_def dead_jobs_def
            raised_jobs_def succeeded_jobs_def retried_jobs_def)
    subgoal
      by (simp add: after_dispatch_def report_after_def requeue_def Let_def dead_jobs_def
            raised_jobs_def succeeded_jobs_def retried_jobs_def)
    done
qed

text \<open>A recording worker changes nothing but its own log, which is \<open>dispatches\<close>.\<close>

lemma spy_apply:
  "spy f (l, w) j = (fst (f w j), (l @ [(j, fst (f w j))], snd (f w j)))"
  by (simp add: spy_def split: prod.splits)

lemma drain_spy:
  "drain (spy f) (l, w) Q rep =
     ((l @ dispatches f w Q, fst (drain f w Q rep)), snd (drain f w Q rep))"
proof (induction w Q arbitrary: rep l rule: queue_induct [where f = f])
  case (Nil w Q)
  then show ?case by (simp add: drain_Nil dispatches_Nil)
next
  case (Cons w Q j js)
  show ?case
    by (simp add: drain_Cons [OF Cons.hyps] dispatches_Cons [OF Cons.hyps] Cons.IH spy_apply)
qed

text \<open>So a run with a recording worker ends with the queue and the report of the run.\<close>

lemma run_spy: "snd (run (spy f) ([], w) Q results) = snd (run f w Q results)"
  by (simp add: run_def drain_spy split: prod.splits)

section \<open>A batch\<close>

subsection \<open>The enqueue phase and the report\<close>

lemma enqueue_valid_loop_eq:
  "enqueue_valid_loop results Q rep =
     (Q\<lparr>queue := queue Q @ map JobItem_new (valid_records results)\<rparr>,
      rep\<lparr>validation_errors := validation_errors rep @ filter (\<lambda>x. \<not> is_valid x) results\<rparr>)"
  by (induction results arbitrary: Q rep) (simp_all add: valid_records_def enqueue_def)

lemma enqueue_valid_eq:
  "enqueue_valid Q results =
     (Q\<lparr>queue := queue Q @ map JobItem_new (valid_records results)\<rparr>,
      ProcessingReport_new\<lparr>validation_errors := filter (\<lambda>x. \<not> is_valid x) results\<rparr>)"
  by (simp add: enqueue_valid_def enqueue_valid_loop_eq ProcessingReport_new_def)

lemma dispatch_log_eq: "dispatch_log f w Q results = dispatches f w (loaded Q results)"
  by (simp add: dispatch_log_def run_def enqueue_valid_eq drain_spy loaded_def split: prod.splits)

lemma final_report_eq:
  "final_report f w Q results =
     \<lparr>success_count = int (length (succeeded_jobs (dispatch_log f w Q results))),
      retry_count = int (length (retried_jobs (dispatch_log f w Q results))),
      failed_jobs = raised_jobs (dispatch_log f w Q results) @ dead_letter Q
                      @ dead_jobs (dispatch_log f w Q results),
      validation_errors = filter (\<lambda>x. \<not> is_valid x) results\<rparr>"
proof -
  obtain w' Q' rep' where d: "drain f w (loaded Q results)
      (ProcessingReport_new\<lparr>validation_errors := filter (\<lambda>x. \<not> is_valid x) results\<rparr>) = (w', Q', rep')"
    by (metis prod_cases3)
  from drain_final [of f w "loaded Q results"
      "ProcessingReport_new\<lparr>validation_errors := filter (\<lambda>x. \<not> is_valid x) results\<rparr>"] d
  show ?thesis
    by (simp add: final_report_def run_def enqueue_valid_eq dispatch_log_eq loaded_def [symmetric]
          ProcessingReport_new_def)
       (simp add: loaded_def)
qed

lemma final_queue_eq:
  "final_queue f w Q results =
     \<lparr>queue = [], dead_letter = dead_letter Q @ dead_jobs (dispatch_log f w Q results)\<rparr>"
proof -
  obtain w' Q' rep' where d: "drain f w (loaded Q results)
      (ProcessingReport_new\<lparr>validation_errors := filter (\<lambda>x. \<not> is_valid x) results\<rparr>) = (w', Q', rep')"
    by (metis prod_cases3)
  from drain_final [of f w "loaded Q results"
      "ProcessingReport_new\<lparr>validation_errors := filter (\<lambda>x. \<not> is_valid x) results\<rparr>"] d
  show ?thesis
    by (simp add: final_queue_def run_def enqueue_valid_eq dispatch_log_eq loaded_def [symmetric])
       (simp add: loaded_def)
qed

lemma loaded_new: "loaded (Orchestrator_queue None) results = new_queue results"
  by (simp add: loaded_def Orchestrator_queue_def JobQueue_new_def new_queue_def)

lemma batch_log_eq: "batch_log f w results = dispatches f w (new_queue results)"
  by (simp add: batch_log_def dispatch_log_eq loaded_new)

lemma batch_report_eq:
  "batch_report f w results =
     \<lparr>success_count = int (length (succeeded_jobs (batch_log f w results))),
      retry_count = int (length (retried_jobs (batch_log f w results))),
      failed_jobs = raised_jobs (batch_log f w results) @ dead_jobs (batch_log f w results),
      validation_errors = filter (\<lambda>x. \<not> is_valid x) results\<rparr>"
  by (simp add: batch_report_def final_report_eq batch_log_def Orchestrator_queue_def
        JobQueue_new_def)

lemma batch_queue_eq:
  "batch_queue f w results = \<lparr>queue = [], dead_letter = dead_jobs (batch_log f w results)\<rparr>"
  by (simp add: batch_queue_def final_queue_eq batch_log_def Orchestrator_queue_def
        JobQueue_new_def)

lemma queue_new_queue [simp]: "queue (new_queue results) = map JobItem_new (valid_records results)"
  by (simp add: new_queue_def)

lemma job_record_new [simp]: "job_record (JobItem_new r) = r"
  by (simp add: JobItem_new_def)

lemma job_record_new_comp [simp]: "job_record \<circ> JobItem_new = id"
  by (simp add: fun_eq_iff)

lemma queue_after_dispatch:
  "queue (after_dispatch (Q\<lparr>queue := js\<rparr>) j out) =
     js @ (if out = Returned False \<and> \<not> is_exhausted (bump j retry_message)
           then [bump j retry_message] else [])"
  by (simp add: after_dispatch_def requeue_def Let_def split: outcome.splits bool.splits)

lemma queue_after_dispatch':
  "queue (after_dispatch (Q\<lparr>queue := js\<rparr>) j out) = js @ requeued j out"
  by (simp add: queue_after_dispatch requeued_def)

lemma job_record_bump [simp]: "job_record (bump j m) = job_record j"
  by (simp add: bump_def)

lemma attempts_bump [simp]: "attempts (bump j m) = attempts j + 1"
  by (simp add: bump_def)

subsection \<open>The sample batch\<close>

lemma sample_results_valid:
  "valid_records sample_results = [sample_record, second_record]"
  "filter (\<lambda>x. \<not> is_valid x) sample_results
     = [validate sample_today (sample_record\<lparr>case_id := []\<rparr>)]"
  by (simp_all add: sample_results_def validate_many_def valid_records_def second_record_def
        validate_defs)

lemma sample_records_differ: "sample_record \<noteq> second_record"
  by (simp add: second_record_def sample_record_def)

lemma sample_validation:
  "errors (validate sample_today sample_record) = []"
  "errors (validate sample_today (sample_record\<lparr>case_id := []\<rparr>)) = [msg_missing F_case_id]"
  by (simp_all add: validate_defs)

lemma dispatches_eval:
  "dispatches f w \<lparr>queue = [], dead_letter = dl\<rparr> = []"
  "dispatches f w \<lparr>queue = j # js, dead_letter = dl\<rparr> =
     (j, fst (f w j)) #
       dispatches f (snd (f w j)) (after_dispatch \<lparr>queue = js, dead_letter = dl\<rparr> j (fst (f w j)))"
  using dispatches_Nil [of "\<lparr>queue = [], dead_letter = dl\<rparr>" f w]
    dispatches_Cons [of "\<lparr>queue = j # js, dead_letter = dl\<rparr>" j js f w]
  by simp_all

lemmas batch_eval =
  batch_log_eq new_queue_def dispatches_eval after_dispatch_def requeue_def bump_def
  is_exhausted_def JobItem_new_def Let_def

lemma sample_batch_log:
  "batch_log scripted [Returned False, Returned True, Raised] sample_results =
     [(JobItem_new sample_record, Returned False),
      (JobItem_new second_record, Returned True),
      (bump (JobItem_new sample_record) retry_message, Raised)]"
  by (simp add: batch_eval sample_results_valid)

lemma sample_tagged_log:
  "tagged_log scripted [Returned False, Returned True, Raised] sample_results =
     [(0, JobItem_new sample_record, Returned False),
      (1, JobItem_new second_record, Returned True),
      (0, bump (JobItem_new sample_record) retry_message, Raised)]"
  by (simp add: tagged_log_def sample_results_valid requeued_def bump_def is_exhausted_def
        JobItem_new_def)

subsection \<open>Only valid records reach the queue and the worker\<close>

lemma dispatched_was_queued:
  "e \<in> set (dispatches f w Q) \<Longrightarrow> job_record (fst e) \<in> job_record ` set (queue Q)"
proof (induction w Q rule: queue_induct [where f = f])
  case (Nil w Q)
  then show ?case by (simp add: dispatches_Nil)
next
  case (Cons w Q j js)
  let ?Q' = "after_dispatch (Q\<lparr>queue := js\<rparr>) j (fst (f w j))"
  from Cons.prems consider "e = (j, fst (f w j))" | "e \<in> set (dispatches f (snd (f w j)) ?Q')"
    by (auto simp: dispatches_Cons [OF Cons.hyps])
  then show ?case
  proof cases
    case 1
    then show ?thesis by (simp add: Cons.hyps)
  next
    case 2
    then have "job_record (fst e) \<in> job_record ` set (queue ?Q')"
      by (rule Cons.IH)
    then show ?thesis
      by (auto simp: Cons.hyps queue_after_dispatch split: if_splits)
  qed
qed

text \<open>
  C8. The enqueue phase puts on the queue, in order, a new job for each valid result
  and nothing else, and collects exactly the results that are not valid in
  \<open>validation_errors\<close>; the dead-letter list is untouched. So a new queue holds
  only records of valid results, and after \<open>validate_many\<close> only records with no
  error. The phase has no access to the worker: the calls the worker receives in a
  whole run are those it receives in the drain loop, started from the queue and the
  report this phase leaves, and none of them is for a record without a valid result.
\<close>

theorem enqueue_valid_partitions:
  "enqueue_valid Q results =
     (Q\<lparr>queue := queue Q @ map JobItem_new (map result_record (filter is_valid results))\<rparr>,
      ProcessingReport_new\<lparr>validation_errors := filter (\<lambda>x. \<not> is_valid x) results\<rparr>) \<and>
   (\<forall>j \<in> set (queue (fst (enqueue_valid (Orchestrator_queue None) results))).
      \<exists>x \<in> set results. is_valid x \<and> j = JobItem_new (result_record x)) \<and>
   (\<forall>j \<in> set (queue (fst (enqueue_valid (Orchestrator_queue None) (validate_many today records)))).
      errors (validate today (job_record j)) = []) \<and>
   dispatch_log f w Q results =
     fst (fst (drain (spy f) ([], w) (fst (enqueue_valid Q results))
                 (snd (enqueue_valid Q results)))) \<and>
   (\<forall>e \<in> set (batch_log f w results).
      \<exists>x \<in> set results. is_valid x \<and> job_record (fst e) = result_record x)"
proof -
  have 1: "enqueue_valid Q results =
     (Q\<lparr>queue := queue Q @ map JobItem_new (map result_record (filter is_valid results))\<rparr>,
      ProcessingReport_new\<lparr>validation_errors := filter (\<lambda>x. \<not> is_valid x) results\<rparr>)" for Q results
    by (simp add: enqueue_valid_eq valid_records_def)
  have 2: "\<forall>j \<in> set (queue (fst (enqueue_valid (Orchestrator_queue None) results))).
      \<exists>x \<in> set results. is_valid x \<and> j = JobItem_new (result_record x)" for results
    by (auto simp: 1 Orchestrator_queue_def JobQueue_new_def)
  have 3: "\<forall>j \<in> set (queue (fst (enqueue_valid (Orchestrator_queue None) (validate_many today records)))).
      errors (validate today (job_record j)) = []"
  proof
    fix j assume "j \<in> set (queue (fst (enqueue_valid (Orchestrator_queue None) (validate_many today records))))"
    with 2 obtain x where x: "x \<in> set (validate_many today records)" "is_valid x"
        "j = JobItem_new (result_record x)"
      by blast
    from x(1) obtain r where "x = validate today r"
      by (auto simp: validate_many_def)
    moreover have "result_record (validate today r) = r"
      by (simp add: validate_def Let_def)
    ultimately show "errors (validate today (job_record j)) = []"
      using x(2,3) by (simp add: is_valid_validate)
  qed
  have 4: "dispatch_log f w Q results =
      fst (fst (drain (spy f) ([], w) (fst (enqueue_valid Q results))
                  (snd (enqueue_valid Q results))))"
    by (simp add: dispatch_log_def run_def split: prod.splits)
  have 5: "\<forall>e \<in> set (batch_log f w results).
      \<exists>x \<in> set results. is_valid x \<and> job_record (fst e) = result_record x"
  proof
    fix e assume "e \<in> set (batch_log f w results)"
    then have "job_record (fst e) \<in> job_record ` set (queue (new_queue results))"
      unfolding batch_log_eq by (rule dispatched_was_queued)
    then show "\<exists>x \<in> set results. is_valid x \<and> job_record (fst e) = result_record x"
      by (auto simp: valid_records_def)
  qed
  from 1 2 3 4 5 show ?thesis by blast
qed

theorem enqueue_valid_partitions_witness:
  "enqueue_valid (Orchestrator_queue None) sample_results =
     (\<lparr>queue = [JobItem_new sample_record, JobItem_new second_record], dead_letter = []\<rparr>,
      ProcessingReport_new
        \<lparr>validation_errors := [validate sample_today (sample_record\<lparr>case_id := []\<rparr>)]\<rparr>) \<and>
   JobItem_new second_record
     \<in> set (queue (fst (enqueue_valid (Orchestrator_queue None) sample_results))) \<and>
   errors (validate sample_today (job_record (JobItem_new second_record))) = [] \<and>
   errors (validate sample_today (sample_record\<lparr>case_id := []\<rparr>)) = [msg_missing F_case_id] \<and>
   (JobItem_new sample_record, Returned False)
     \<in> set (batch_log scripted [Returned False, Returned True, Raised] sample_results) \<and>
   (\<exists>x \<in> set sample_results. is_valid x \<and> sample_record = result_record x)"
proof -
  note inst = enqueue_valid_partitions [of "Orchestrator_queue None" sample_results sample_today
      "[sample_record, second_record, sample_record\<lparr>case_id := []\<rparr>]" scripted
      "[Returned False, Returned True, Raised]"]
  have q: "enqueue_valid (Orchestrator_queue None) sample_results =
     (\<lparr>queue = [JobItem_new sample_record, JobItem_new second_record], dead_letter = []\<rparr>,
      ProcessingReport_new
        \<lparr>validation_errors := [validate sample_today (sample_record\<lparr>case_id := []\<rparr>)]\<rparr>)"
    using inst [THEN conjunct1] sample_results_valid [unfolded valid_records_def]
    by (simp add: Orchestrator_queue_def JobQueue_new_def)
  then have mem: "JobItem_new second_record
      \<in> set (queue (fst (enqueue_valid (Orchestrator_queue None) sample_results)))"
    by simp
  have "\<forall>j \<in> set (queue (fst (enqueue_valid (Orchestrator_queue None) sample_results))).
      errors (validate sample_today (job_record j)) = []"
    unfolding sample_results_def
    using inst [THEN conjunct2, THEN conjunct2, THEN conjunct1] .
  with mem have e: "errors (validate sample_today (job_record (JobItem_new second_record))) = []"
    by blast
  have l: "(JobItem_new sample_record, Returned False)
      \<in> set (batch_log scripted [Returned False, Returned True, Raised] sample_results)"
    by (simp add: sample_batch_log)
  have "\<forall>e \<in> set (batch_log scripted [Returned False, Returned True, Raised] sample_results).
      \<exists>x \<in> set sample_results. is_valid x \<and> job_record (fst e) = result_record x"
    using inst [THEN conjunct2, THEN conjunct2, THEN conjunct2, THEN conjunct2] .
  with l have "\<exists>x \<in> set sample_results.
      is_valid x \<and> job_record (fst (JobItem_new sample_record, Returned False)) = result_record x"
    by blast
  then have x: "\<exists>x \<in> set sample_results. is_valid x \<and> sample_record = result_record x"
    by simp
  from q mem e l x show ?thesis
    by (simp only: sample_validation simp_thms)
qed

subsection \<open>The first pass\<close>

lemma first_pass:
  "queue Q = xs @ ys \<Longrightarrow> take (length xs) (map fst (dispatches f w Q)) = xs"
proof (induction xs arbitrary: w Q ys)
  case Nil
  then show ?case by simp
next
  case (Cons x xs)
  then have q: "queue Q = x # (xs @ ys)" by simp
  have "queue (after_dispatch (Q\<lparr>queue := xs @ ys\<rparr>) x (fst (f w x))) =
      xs @ (ys @ (if fst (f w x) = Returned False \<and> \<not> is_exhausted (bump x retry_message)
           then [bump x retry_message] else []))"
    by (simp add: queue_after_dispatch)
  then have "take (length xs) (map fst (dispatches f (snd (f w x))
      (after_dispatch (Q\<lparr>queue := xs @ ys\<rparr>) x (fst (f w x))))) = xs"
    by (rule Cons.IH)
  then show ?case
    by (simp add: dispatches_Cons [OF q])
qed

lemma attempts_lower_bound:
  "\<forall>j \<in> set (queue Q). a \<le> attempts j \<Longrightarrow> \<forall>e \<in> set (dispatches f w Q). a \<le> attempts (fst e)"
proof (induction w Q rule: queue_induct [where f = f])
  case (Nil w Q)
  then show ?case by (simp add: dispatches_Nil)
next
  case (Cons w Q j js)
  from Cons.prems Cons.hyps
  have "\<forall>x \<in> set (queue (after_dispatch (Q\<lparr>queue := js\<rparr>) j (fst (f w j)))). a \<le> attempts x"
    by (auto simp: queue_after_dispatch)
  then have "\<forall>e \<in> set (dispatches f (snd (f w j))
      (after_dispatch (Q\<lparr>queue := js\<rparr>) j (fst (f w j)))). a \<le> attempts (fst e)"
    by (rule Cons.IH)
  with Cons.prems Cons.hyps show ?case
    by (simp add: dispatches_Cons [OF Cons.hyps])
qed

lemma later_passes:
  "queue Q = xs @ ys \<Longrightarrow> \<forall>j \<in> set xs. a \<le> attempts j \<Longrightarrow> \<forall>j \<in> set ys. a + 1 \<le> attempts j \<Longrightarrow>
   \<forall>e \<in> set (drop (length xs) (dispatches f w Q)). a + 1 \<le> attempts (fst e)"
proof (induction xs arbitrary: w Q ys)
  case Nil
  then show ?case using attempts_lower_bound [of Q "a + 1" f w] by simp
next
  case (Cons x xs)
  then have q: "queue Q = x # (xs @ ys)" by simp
  let ?ys' = "ys @ (if fst (f w x) = Returned False \<and> \<not> is_exhausted (bump x retry_message)
           then [bump x retry_message] else [])"
  have 1: "queue (after_dispatch (Q\<lparr>queue := xs @ ys\<rparr>) x (fst (f w x))) = xs @ ?ys'"
    by (simp add: queue_after_dispatch)
  have 2: "\<forall>j \<in> set xs. a \<le> attempts j" using Cons.prems(2) by simp
  have 3: "\<forall>j \<in> set ?ys'. a + 1 \<le> attempts j" using Cons.prems(2,3) by auto
  from Cons.IH [OF 1 2 3] show ?case
    by (simp add: dispatches_Cons [OF q])
qed

lemma batch_first_pass:
  "map fst (take (length (valid_records results)) (batch_log f w results))
     = map JobItem_new (valid_records results)"
  using first_pass [of "new_queue results" "map JobItem_new (valid_records results)" "[]" f w]
  by (simp add: batch_log_eq take_map)

lemma batch_later_passes:
  "\<forall>e \<in> set (drop (length (valid_records results)) (batch_log f w results)). 1 \<le> attempts (fst e)"
  using later_passes [of "new_queue results" "map JobItem_new (valid_records results)" "[]" 0 f w]
  by (simp add: batch_log_eq JobItem_new_def)

subsection \<open>The calls of one job\<close>

lemma lifecycle_one_end:
  "lifecycle j es \<Longrightarrow>
   length (succeeded_jobs es) + length (raised_jobs es) + length (dead_jobs es) = 1"
proof (induction es arbitrary: j)
  case Nil
  then show ?case by simp
next
  case (Cons e es)
  obtain j' out where e: "e = (j', out)" by (cases e)
  show ?case
  proof (cases "out = Returned False \<and> \<not> is_exhausted (bump j retry_message)")
    case True
    with Cons.prems e have "lifecycle (bump j retry_message) es" and "j' = j" by simp_all
    from Cons.IH [OF this(1)] True e \<open>j' = j\<close> show ?thesis
      by (simp add: succeeded_jobs_def raised_jobs_def dead_jobs_def retried_jobs_def)
  next
    case False
    with Cons.prems e have "es = []" and "j' = j" by auto
    with False e show ?thesis
      by (cases out) (auto simp: succeeded_jobs_def raised_jobs_def dead_jobs_def retried_jobs_def)
  qed
qed

lemma lifecycle_ends:
  "lifecycle j0 (xs @ e # ys) \<Longrightarrow> snd e \<noteq> Returned False \<Longrightarrow> ys = []"
proof (induction xs arbitrary: j0)
  case Nil
  then show ?case by (cases e) auto
next
  case (Cons x xs)
  obtain j' out where x: "x = (j', out)" by (cases x)
  from Cons.prems(1) x have "lifecycle (bump j0 retry_message) (xs @ e # ys)"
    by (auto split: if_splits)
  then show ?case using Cons.prems(2) by (rule Cons.IH)
qed

lemma lifecycle_attempts:
  "lifecycle j es \<Longrightarrow>
   map (\<lambda>e. attempts (fst e)) es = map (\<lambda>k. attempts j + int k) [0..<length es]"
proof (induction es arbitrary: j)
  case Nil
  then show ?case by simp
next
  case (Cons e es)
  obtain j' out where e: "e = (j', out)" by (cases e)
  from Cons.prems e have j': "j' = j" by simp
  have "map (\<lambda>e. attempts (fst e)) es = map (\<lambda>k. attempts j + int (Suc k)) [0..<length es]"
  proof (cases "out = Returned False \<and> \<not> is_exhausted (bump j retry_message)")
    case True
    with Cons.prems e have "lifecycle (bump j retry_message) es" by simp
    from Cons.IH [OF this] show ?thesis by (simp add: add.assoc)
  next
    case False
    with Cons.prems e have "es = []" by auto
    then show ?thesis by simp
  qed
  moreover have "[0..<length (e # es)] = 0 # map Suc [0..<length es]"
    by (simp add: upt_conv_Cons map_Suc_upt del: upt_Suc)
  ultimately show ?case
    by (simp add: e j' comp_def del: upt_Suc)
qed

lemma lifecycle_failed_attempts:
  "lifecycle j es \<Longrightarrow>
   \<forall>x \<in> set (raised_jobs es @ dead_jobs es).
     attempts x = attempts j + int (length (retried_jobs es))"
proof (induction es arbitrary: j)
  case Nil
  then show ?case by simp
next
  case (Cons e es)
  obtain j' out where e: "e = (j', out)" by (cases e)
  from Cons.prems e have j': "j' = j" by simp
  show ?case
  proof (cases "out = Returned False \<and> \<not> is_exhausted (bump j retry_message)")
    case True
    with Cons.prems e have "lifecycle (bump j retry_message) es" by simp
    from Cons.IH [OF this] True show ?thesis
      by (simp add: e j' raised_jobs_def dead_jobs_def retried_jobs_def)
  next
    case False
    with Cons.prems e have "es = []" by auto
    with False show ?thesis
      by (cases out) (auto simp: e j' raised_jobs_def dead_jobs_def retried_jobs_def)
  qed
qed

lemma lifecycle_record:
  "lifecycle j es \<Longrightarrow> \<forall>e \<in> set es. job_record (fst e) = job_record j"
proof (induction es arbitrary: j)
  case Nil
  then show ?case by simp
next
  case (Cons e es)
  obtain j' out where e: "e = (j', out)" by (cases e)
  show ?case
  proof (cases "out = Returned False \<and> \<not> is_exhausted (bump j retry_message)")
    case True
    with Cons.prems e have "lifecycle (bump j retry_message) es" and "j' = j" by simp_all
    from Cons.IH [OF this(1)] \<open>j' = j\<close> e show ?thesis by simp
  next
    case False
    with Cons.prems e have "es = []" and "j' = j" by auto
    with e show ?thesis by simp
  qed
qed

lemma job_after_0: "JobItem_new r = job_after r 0"
  by (simp add: job_after_def JobItem_new_def)

lemma bump_job_after: "bump (job_after r k) retry_message = job_after r (Suc k)"
  by (simp add: job_after_def bump_def replicate_append_same)

lemma exhausted_job_after: "is_exhausted (job_after r k) = (3 \<le> k)"
  by (simp add: job_after_def is_exhausted_def)

lemma lifecycle_retry_step:
  assumes "lifecycle j es" "\<forall>e \<in> set es. snd e = Returned False"
  shows "\<exists>es'. es = (j, Returned False) # es' \<and>
           (if is_exhausted (bump j retry_message) then es' = []
            else lifecycle (bump j retry_message) es')"
proof (cases es)
  case Nil
  with assms(1) show ?thesis by simp
next
  case (Cons e es')
  obtain j' out where e: "e = (j', out)" by (cases e)
  from assms(2) Cons e have out: "out = Returned False" by simp
  from assms(1) have "lifecycle j ((j', Returned False) # es')"
    unfolding Cons e out .
  then have "j' = j" and "if is_exhausted (bump j retry_message) then es' = []
            else lifecycle (bump j retry_message) es'"
    by (simp_all split: if_splits)
  with Cons e out show ?thesis by simp
qed

lemma lifecycle_always_retry:
  assumes "lifecycle (job_after r 0) es" "\<forall>e \<in> set es. snd e = Returned False"
  shows "es = [(job_after r 0, Returned False), (job_after r (Suc 0), Returned False),
               (job_after r (Suc (Suc 0)), Returned False)]"
proof -
  from lifecycle_retry_step [OF assms] obtain es1
    where 1: "es = (job_after r 0, Returned False) # es1"
      and l1: "lifecycle (job_after r (Suc 0)) es1"
    by (auto simp: bump_job_after exhausted_job_after)
  from assms(2) 1 have a1: "\<forall>e \<in> set es1. snd e = Returned False" by simp
  from lifecycle_retry_step [OF l1 a1] obtain es2
    where 2: "es1 = (job_after r (Suc 0), Returned False) # es2"
      and l2: "lifecycle (job_after r (Suc (Suc 0))) es2"
    by (auto simp: bump_job_after exhausted_job_after)
  from a1 2 have a2: "\<forall>e \<in> set es2. snd e = Returned False" by simp
  from lifecycle_retry_step [OF l2 a2]
  have 3: "es2 = [(job_after r (Suc (Suc 0)), Returned False)]"
    by (auto simp: bump_job_after exhausted_job_after)
  from 1 2 3 show ?thesis by simp
qed

subsection \<open>The jobs by their number\<close>

lemma tagged_erase:
  "queue Q = map snd q \<Longrightarrow> map snd (tagged_dispatches f w q) = dispatches f w Q"
proof (induction f w q arbitrary: Q rule: tagged_dispatches.induct)
  case (1 f w)
  then show ?case by (simp add: dispatches_Nil)
next
  case (2 f w i job rest)
  from "2.prems" have q: "queue Q = job # map snd rest" by simp
  have "queue (after_dispatch (Q\<lparr>queue := map snd rest\<rparr>) job (fst (f w job)))
      = map snd (rest @ map (Pair i) (requeued job (fst (f w job))))"
    by (simp add: queue_after_dispatch' comp_def)
  from "2.IH" [OF this] show ?case
    by (simp add: dispatches_Cons [OF q])
qed

lemma calls_of_Nil [simp]: "calls_of i [] = []"
  by (simp add: calls_of_def)

lemma calls_of_Cons:
  "calls_of i (e # es) = (if fst e = i then snd e # calls_of i es else calls_of i es)"
  by (simp add: calls_of_def)

lemma calls_of_append [simp]: "calls_of i (xs @ ys) = calls_of i xs @ calls_of i ys"
  by (simp add: calls_of_def)

lemma never_queued_never_called:
  "i \<notin> fst ` set q \<Longrightarrow> calls_of i (tagged_dispatches f w q) = []"
proof (induction f w q rule: tagged_dispatches.induct)
  case (1 f w)
  then show ?case by simp
next
  case (2 f w k job rest)
  from "2.prems" have "i \<notin> fst ` set (rest @ map (Pair k) (requeued job (fst (f w job))))"
    by (auto simp: requeued_def)
  from "2.IH" [OF this] "2.prems" show ?case
    by (simp add: calls_of_Cons)
qed

lemma lifecycle_tagged:
  "distinct (map fst q) \<Longrightarrow> (i, j) \<in> set q \<Longrightarrow> lifecycle j (calls_of i (tagged_dispatches f w q))"
proof (induction f w q arbitrary: j rule: tagged_dispatches.induct)
  case (1 f w)
  then show ?case by simp
next
  case (2 f w k job rest)
  let ?out = "fst (f w job)"
  let ?q' = "rest @ map (Pair k) (requeued job ?out)"
  let ?log' = "tagged_dispatches f (snd (f w job)) ?q'"
  from "2.prems"(1) have k: "k \<notin> fst ` set rest" and dr: "distinct (map fst rest)"
    by simp_all
  have dist': "distinct (map fst ?q')"
    using k dr by (auto simp: requeued_def comp_def)
  show ?case
  proof (cases "i = k")
    case True
    with "2.prems"(2) k have j: "j = job"
      by (auto simp: image_iff)
    show ?thesis
    proof (cases "?out = Returned False \<and> \<not> is_exhausted (bump job retry_message)")
      case again: True
      then have "(i, bump job retry_message) \<in> set ?q'"
        by (simp add: requeued_def True)
      from "2.IH" [OF dist' this] again True j show ?thesis
        by (simp add: calls_of_Cons)
    next
      case False
      then have "?q' = rest"
        by (auto simp: requeued_def)
      with k have "k \<notin> fst ` set ?q'" by simp
      then have "calls_of k ?log' = []"
        by (rule never_queued_never_called)
      with False True j show ?thesis
        by (auto simp: calls_of_Cons)
    qed
  next
    case False
    with "2.prems"(2) have "(i, j) \<in> set ?q'" by simp
    from "2.IH" [OF dist' this] False show ?thesis
      by (simp add: calls_of_Cons)
  qed
qed

lemma tags_end_once:
  "mset (map fst (tagged_succeeded (tagged_dispatches f w q))) +
   mset (map fst (tagged_failed (tagged_dispatches f w q))) = mset (map fst q)"
proof (induction f w q rule: tagged_dispatches.induct)
  case (1 f w)
  then show ?case
    by (simp add: tagged_succeeded_def tagged_failed_def tagged_raised_def tagged_dead_def)
next
  case (2 f w i job rest)
  show ?case
    using "2.IH"
    apply (cases "fst (f w job)")
    subgoal for b
      by (cases b)
         (auto simp: tagged_succeeded_def tagged_failed_def tagged_raised_def tagged_dead_def
            requeued_def)
    subgoal
      by (simp add: tagged_succeeded_def tagged_failed_def tagged_raised_def tagged_dead_def
            requeued_def)
    done
qed

lemma raised_erase: "map snd (tagged_raised tlog) = raised_jobs (map snd tlog)"
  by (induction tlog) (simp_all add: tagged_raised_def raised_jobs_def)

lemma dead_erase: "map snd (tagged_dead tlog) = dead_jobs (map snd tlog)"
  by (induction tlog) (simp_all add: tagged_dead_def dead_jobs_def retried_jobs_def)

lemma failed_erase:
  "map snd (tagged_failed tlog) = raised_jobs (map snd tlog) @ dead_jobs (map snd tlog)"
  by (simp add: tagged_failed_def raised_erase dead_erase)

lemma succeeded_erase: "map snd (tagged_succeeded tlog) = succeeded_jobs (map snd tlog)"
  by (induction tlog) (simp_all add: tagged_succeeded_def succeeded_jobs_def)

lemma raised_of_tag:
  "map snd (filter (\<lambda>e. fst e = i) (tagged_raised tlog)) = raised_jobs (calls_of i tlog)"
  by (induction tlog) (simp_all add: tagged_raised_def raised_jobs_def calls_of_def)

lemma dead_of_tag:
  "map snd (filter (\<lambda>e. fst e = i) (tagged_dead tlog)) = dead_jobs (calls_of i tlog)"
  by (induction tlog) (simp_all add: tagged_dead_def dead_jobs_def retried_jobs_def calls_of_def)

lemma failed_of_tag:
  "map snd (filter (\<lambda>e. fst e = i) (tagged_failed tlog)) =
     raised_jobs (calls_of i tlog) @ dead_jobs (calls_of i tlog)"
  by (simp add: tagged_failed_def raised_of_tag dead_of_tag)

lemma succeeded_of_tag:
  "map snd (filter (\<lambda>e. fst e = i) (tagged_succeeded tlog)) = succeeded_jobs (calls_of i tlog)"
  by (induction tlog) (simp_all add: tagged_succeeded_def succeeded_jobs_def calls_of_def)

lemma filter_tag_eq:
  "filter (\<lambda>e. fst e = i) xs = map (Pair i) (map snd (filter (\<lambda>e. fst e = i) xs))"
  by (induction xs) auto

lemma every_tag_dispatched:
  "(i, j) \<in> set q \<Longrightarrow> i \<in> fst ` set (tagged_dispatches f w q)"
proof (induction f w q rule: tagged_dispatches.induct)
  case (1 f w)
  then show ?case by simp
next
  case (2 f w k job rest)
  show ?case
  proof (cases "i = k")
    case True
    then show ?thesis by simp
  next
    case False
    with "2.prems" have "(i, j) \<in> set (rest @ map (Pair k) (requeued job (fst (f w job))))"
      by simp
    from "2.IH" [OF this] show ?thesis by simp
  qed
qed

lemma tag_was_queued:
  assumes "e \<in> set (tagged_dispatches f w q)"
  shows "fst e \<in> fst ` set q"
proof (rule ccontr)
  assume "fst e \<notin> fst ` set q"
  then have "calls_of (fst e) (tagged_dispatches f w q) = []"
    by (rule never_queued_never_called)
  with assms show False
    by (auto simp: calls_of_def filter_empty_conv)
qed

lemma retried_of_tag:
  "length (filter (\<lambda>e. snd (snd e) = Returned False) tlog) =
     length (retried_jobs (calls_of i tlog)) +
     length (filter (\<lambda>e. fst e \<noteq> i \<and> snd (snd e) = Returned False) tlog)"
  by (induction tlog) (simp_all add: retried_jobs_def calls_of_def)

lemma retried_erase:
  "length (retried_jobs (map snd tlog)) = length (filter (\<lambda>e. snd (snd e) = Returned False) tlog)"
  by (induction tlog) (simp_all add: retried_jobs_def)

lemma tagged_log_erase: "map snd (tagged_log f w results) = batch_log f w results"
  unfolding tagged_log_def batch_log_eq
  by (rule tagged_erase) (simp add: new_queue_def)

lemma tagged_log_tag:
  "e \<in> set (tagged_log f w results) \<Longrightarrow> fst e < length (valid_records results)"
proof -
  assume "e \<in> set (tagged_log f w results)"
  then have "fst e \<in> fst ` set (List.enumerate 0 (map JobItem_new (valid_records results)))"
    unfolding tagged_log_def by (rule tag_was_queued)
  then show ?thesis by (auto simp: in_set_enumerate_eq)
qed

lemma tagged_log_lifecycle:
  assumes "i < length (valid_records results)"
  shows "lifecycle (JobItem_new (valid_records results ! i)) (calls_of i (tagged_log f w results))"
proof -
  let ?q = "List.enumerate 0 (map JobItem_new (valid_records results))"
  have "distinct (map fst ?q)" by simp
  moreover have "(i, JobItem_new (valid_records results ! i)) \<in> set ?q"
    using assms by (simp add: in_set_enumerate_eq)
  ultimately show ?thesis
    unfolding tagged_log_def by (rule lifecycle_tagged)
qed

lemma tagged_failed_report:
  "map snd (tagged_failed (tagged_log f w results)) = failed_jobs (batch_report f w results)"
  by (simp add: failed_erase tagged_log_erase batch_report_eq)

lemma tagged_dead_queue:
  "map snd (tagged_dead (tagged_log f w results)) = dead_letter (batch_queue f w results)"
  by (simp add: dead_erase tagged_log_erase batch_queue_eq)

lemma tagged_succeeded_report:
  "int (length (tagged_succeeded (tagged_log f w results))) = success_count (batch_report f w results)"
proof -
  have "length (tagged_succeeded (tagged_log f w results))
      = length (map snd (tagged_succeeded (tagged_log f w results)))"
    by simp
  also have "\<dots> = length (succeeded_jobs (batch_log f w results))"
    by (simp only: succeeded_erase tagged_log_erase)
  finally show ?thesis by (simp add: batch_report_eq)
qed

lemma tagged_log_ends:
  "mset (map fst (tagged_succeeded (tagged_log f w results))) +
   mset (map fst (tagged_failed (tagged_log f w results)))
     = mset [0..<length (valid_records results)]"
  using tags_end_once [of f w "List.enumerate 0 (map JobItem_new (valid_records results))"]
  by (simp add: tagged_log_def)

lemma tagged_log_record:
  assumes "(i, j, out) \<in> set (tagged_log f w results)"
  shows "job_record j = valid_records results ! i"
proof -
  from assms have i: "i < length (valid_records results)"
    using tagged_log_tag by fastforce
  from assms have "(j, out) \<in> set (calls_of i (tagged_log f w results))"
    by (force simp: calls_of_def)
  with lifecycle_record [OF tagged_log_lifecycle [OF i, of f w]] show ?thesis
    by fastforce
qed

lemma tagged_counted_record:
  assumes "(i, j) \<in> set (tagged_succeeded (tagged_log f w results)) \<union>
                  set (tagged_failed (tagged_log f w results))"
  shows "i < length (valid_records results) \<and> job_record j = valid_records results ! i"
proof -
  from assms obtain j' out where in_log: "(i, j', out) \<in> set (tagged_log f w results)"
      and "job_record j = job_record j'"
    by (auto simp: tagged_succeeded_def tagged_failed_def tagged_raised_def tagged_dead_def)
  with tagged_log_record [OF in_log] tagged_log_tag [OF in_log] show ?thesis
    by simp
qed

lemma tagged_first_pass:
  "take (length xs) (map (\<lambda>e. (fst e, fst (snd e))) (tagged_dispatches f w (xs @ ys))) = xs"
proof (induction xs arbitrary: w ys)
  case Nil
  then show ?case by simp
next
  case (Cons x xs)
  obtain i job where x: "x = (i, job)" by (cases x)
  have "take (length xs) (map (\<lambda>e. (fst e, fst (snd e)))
      (tagged_dispatches f (snd (f w job)) (xs @ (ys @ map (Pair i) (requeued job (fst (f w job))))))) = xs"
    by (rule Cons.IH)
  then show ?case by (simp add: x)
qed

lemma tagged_log_first_pass:
  assumes "k < length (valid_records results)"
  shows "k < length (tagged_log f w results) \<and> fst (tagged_log f w results ! k) = k \<and>
         fst (snd (tagged_log f w results ! k)) = JobItem_new (valid_records results ! k)"
proof -
  let ?q = "List.enumerate 0 (map JobItem_new (valid_records results))"
  let ?tl = "tagged_log f w results"
  have t: "take (length ?q) (map (\<lambda>e. (fst e, fst (snd e))) ?tl) = ?q"
    using tagged_first_pass [of ?q f w "[]"] by (simp add: tagged_log_def)
  then have "length (take (length ?q) (map (\<lambda>e. (fst e, fst (snd e))) ?tl)) = length ?q"
    by simp
  then have len: "length (valid_records results) \<le> length ?tl"
    by simp
  from t have "take (length ?q) (map (\<lambda>e. (fst e, fst (snd e))) ?tl) ! k = ?q ! k"
    by simp
  with assms len have "(fst (?tl ! k), fst (snd (?tl ! k))) = (k, JobItem_new (valid_records results ! k))"
    by (simp add: nth_enumerate_eq)
  with assms len show ?thesis by simp
qed

lemma every_job_dispatched:
  "(i, j) \<in> set q \<Longrightarrow> \<exists>out. (i, j, out) \<in> set (tagged_dispatches f w q)"
proof (induction f w q rule: tagged_dispatches.induct)
  case (1 f w)
  then show ?case by simp
next
  case (2 f w k job rest)
  show ?case
  proof (cases "(i, j) = (k, job)")
    case True
    then show ?thesis by auto
  next
    case False
    with "2.prems" have "(i, j) \<in> set (rest @ map (Pair k) (requeued job (fst (f w job))))"
      by auto
    from "2.IH" [OF this] show ?thesis by auto
  qed
qed

lemma retried_job_dispatched_again:
  "(i, j, Returned False) \<in> set (tagged_dispatches f w q) \<Longrightarrow>
   \<not> is_exhausted (bump j retry_message) \<Longrightarrow>
   \<exists>out. (i, bump j retry_message, out) \<in> set (tagged_dispatches f w q)"
proof (induction f w q rule: tagged_dispatches.induct)
  case (1 f w)
  then show ?case by simp
next
  case (2 f w k job rest)
  let ?q' = "rest @ map (Pair k) (requeued job (fst (f w job)))"
  let ?log' = "tagged_dispatches f (snd (f w job)) ?q'"
  from "2.prems"(1) consider "(i, j, Returned False) = (k, job, fst (f w job))"
    | "(i, j, Returned False) \<in> set ?log'"
    by auto
  then have "\<exists>out. (i, bump j retry_message, out) \<in> set ?log'"
  proof cases
    case 1
    with "2.prems"(2) have "(i, bump j retry_message) \<in> set ?q'"
      by (simp add: requeued_def)
    then show ?thesis by (rule every_job_dispatched)
  next
    case 2
    then show ?thesis using "2.prems"(2) by (rule "2.IH")
  qed
  then show ?case by auto
qed

subsection \<open>The order of the calls\<close>

text \<open>
  C4. \<open>requeue\<close> puts a job that is not exhausted at the tail of the queue and
  \<open>dequeue\<close> takes the head. In a batch the first calls are therefore for the
  enqueued jobs, one each and in order, and every later call is for a job that has
  been requeued. So for jobs A before B, where A's first call asks for a retry and
  B's call succeeds: A is dispatched a second time, with one attempt counted, and
  every call for A after its first comes after B's.
\<close>

theorem requeue_goes_to_the_tail:
  "(\<not> is_exhausted (bump job m) \<longrightarrow> queue (requeue Q job m) = queue Q @ [bump job m]) \<and>
   (queue Q = h # js \<longrightarrow> dequeue Q = (Some h, Q\<lparr>queue := js\<rparr>)) \<and>
   map snd (tagged_log f w results) = batch_log f w results \<and>
   map fst (take (length (valid_records results)) (batch_log f w results))
     = map JobItem_new (valid_records results) \<and>
   (\<forall>e \<in> set (drop (length (valid_records results)) (batch_log f w results)).
      1 \<le> attempts (fst e)) \<and>
   (\<forall>k < length (valid_records results).
      k < length (tagged_log f w results) \<and> fst (tagged_log f w results ! k) = k) \<and>
   (\<forall>i k. i < k \<and> k < length (valid_records results) \<and>
      snd (snd (tagged_log f w results ! i)) = Returned False \<and>
      snd (snd (tagged_log f w results ! k)) = Returned True \<longrightarrow>
        (\<exists>p. k < p \<and> p < length (tagged_log f w results) \<and>
           fst (tagged_log f w results ! p) = i \<and>
           fst (snd (tagged_log f w results ! p))
             = bump (JobItem_new (valid_records results ! i)) retry_message) \<and>
        (\<forall>p < length (tagged_log f w results).
           fst (tagged_log f w results ! p) = i \<and> p \<noteq> i \<longrightarrow> k < p))"
proof -
  let ?tl = "tagged_log f w results" and ?rs = "valid_records results"
  have tail: "\<not> is_exhausted (bump job m) \<longrightarrow> queue (requeue Q job m) = queue Q @ [bump job m]"
    by (simp add: requeue_def Let_def)
  have head: "queue Q = h # js \<longrightarrow> dequeue Q = (Some h, Q\<lparr>queue := js\<rparr>)"
    by (simp add: dequeue_def)
  have pass: "\<forall>k < length ?rs. k < length ?tl \<and> fst (?tl ! k) = k"
    using tagged_log_first_pass [of _ results f w] by blast
  have after: "k < p" if "k < length ?rs" "p < length ?tl" "fst (?tl ! p) = i" "p \<noteq> i" for k p i
  proof (rule ccontr)
    assume "\<not> k < p"
    with that(1) have "p < length ?rs" by simp
    then have "fst (?tl ! p) = p" using pass by blast
    with that(3,4) show False by simp
  qed
  have again: "\<exists>p. k < p \<and> p < length ?tl \<and> fst (?tl ! p) = i \<and>
      fst (snd (?tl ! p)) = bump (JobItem_new (?rs ! i)) retry_message"
    if "i < k" "k < length ?rs" "snd (snd (?tl ! i)) = Returned False" for i k
  proof -
    from that have i: "i < length ?rs" by simp
    from tagged_log_first_pass [OF i, of f w] that(3)
    have at_i: "i < length ?tl" "?tl ! i = (i, JobItem_new (?rs ! i), Returned False)"
      by (simp_all add: prod_eq_iff)
    then have "(i, JobItem_new (?rs ! i), Returned False) \<in> set ?tl"
      by (metis nth_mem)
    moreover have "\<not> is_exhausted (bump (JobItem_new (?rs ! i)) retry_message)"
      by (simp add: is_exhausted_def bump_def JobItem_new_def)
    ultimately have "\<exists>out. (i, bump (JobItem_new (?rs ! i)) retry_message, out) \<in> set ?tl"
      unfolding tagged_log_def by (rule retried_job_dispatched_again)
    then obtain out where "(i, bump (JobItem_new (?rs ! i)) retry_message, out) \<in> set ?tl" ..
    then obtain p where p: "p < length ?tl"
        "?tl ! p = (i, bump (JobItem_new (?rs ! i)) retry_message, out)"
      by (auto simp: in_set_conv_nth)
    have "p \<noteq> i"
    proof
      assume "p = i"
      with p(2) at_i(2) have "bump (JobItem_new (?rs ! i)) retry_message = JobItem_new (?rs ! i)"
        by simp
      then have "attempts (bump (JobItem_new (?rs ! i)) retry_message)
          = attempts (JobItem_new (?rs ! i))"
        by simp
      then show False by simp
    qed
    with after [OF that(2) p(1)] p show ?thesis by auto
  qed
  have scen: "\<forall>i k. i < k \<and> k < length ?rs \<and>
      snd (snd (?tl ! i)) = Returned False \<and> snd (snd (?tl ! k)) = Returned True \<longrightarrow>
        (\<exists>p. k < p \<and> p < length ?tl \<and> fst (?tl ! p) = i \<and>
           fst (snd (?tl ! p)) = bump (JobItem_new (?rs ! i)) retry_message) \<and>
        (\<forall>p < length ?tl. fst (?tl ! p) = i \<and> p \<noteq> i \<longrightarrow> k < p)"
  proof (intro allI impI, elim conjE)
    fix i k
    assume ik: "i < k" "k < length ?rs" and out: "snd (snd (?tl ! i)) = Returned False"
    have c: "\<exists>p. k < p \<and> p < length ?tl \<and> fst (?tl ! p) = i \<and>
           fst (snd (?tl ! p)) = bump (JobItem_new (?rs ! i)) retry_message"
      using ik out by (rule again)
    have d: "\<forall>p < length ?tl. fst (?tl ! p) = i \<and> p \<noteq> i \<longrightarrow> k < p"
      using after [OF ik(2)] by blast
    from c d show "(\<exists>p. k < p \<and> p < length ?tl \<and> fst (?tl ! p) = i \<and>
           fst (snd (?tl ! p)) = bump (JobItem_new (?rs ! i)) retry_message) \<and>
        (\<forall>p < length ?tl. fst (?tl ! p) = i \<and> p \<noteq> i \<longrightarrow> k < p)"
      by (rule conjI)
  qed
  from tail head tagged_log_erase [of f w results] batch_first_pass [of results f w]
    batch_later_passes [of results f w] pass scen
  show ?thesis by (intro conjI)
qed

theorem requeue_goes_to_the_tail_witness:
  "\<not> is_exhausted (bump (JobItem_new sample_record) retry_message) \<and>
   queue (requeue \<lparr>queue = [JobItem_new second_record], dead_letter = []\<rparr>
            (JobItem_new sample_record) retry_message)
     = [JobItem_new second_record, bump (JobItem_new sample_record) retry_message] \<and>
   dequeue \<lparr>queue = [JobItem_new sample_record, JobItem_new second_record], dead_letter = []\<rparr>
     = (Some (JobItem_new sample_record),
        \<lparr>queue = [JobItem_new second_record], dead_letter = []\<rparr>) \<and>
   (0::nat) < 1 \<and> 1 < length (valid_records sample_results) \<and>
   tagged_log scripted [Returned False, Returned True, Raised] sample_results =
     [(0, JobItem_new sample_record, Returned False),
      (1, JobItem_new second_record, Returned True),
      (0, bump (JobItem_new sample_record) retry_message, Raised)] \<and>
   snd (snd (tagged_log scripted [Returned False, Returned True, Raised] sample_results ! 0))
     = Returned False \<and>
   snd (snd (tagged_log scripted [Returned False, Returned True, Raised] sample_results ! 1))
     = Returned True \<and>
   (\<exists>p. 1 < p \<and>
      p < length (tagged_log scripted [Returned False, Returned True, Raised] sample_results) \<and>
      fst (tagged_log scripted [Returned False, Returned True, Raised] sample_results ! p) = 0 \<and>
      fst (snd (tagged_log scripted [Returned False, Returned True, Raised] sample_results ! p))
        = bump (JobItem_new (valid_records sample_results ! 0)) retry_message)"
proof -
  note inst = requeue_goes_to_the_tail [of "JobItem_new sample_record" retry_message
      "\<lparr>queue = [JobItem_new second_record], dead_letter = []\<rparr>" _ _ scripted
      "[Returned False, Returned True, Raised]" sample_results]
  have a: "\<not> is_exhausted (bump (JobItem_new sample_record) retry_message)"
    by (simp add: is_exhausted_def bump_def JobItem_new_def)
  with inst have b: "queue (requeue \<lparr>queue = [JobItem_new second_record], dead_letter = []\<rparr>
            (JobItem_new sample_record) retry_message)
     = [JobItem_new second_record, bump (JobItem_new sample_record) retry_message]"
    by simp
  have c: "dequeue \<lparr>queue = [JobItem_new sample_record, JobItem_new second_record], dead_letter = []\<rparr>
     = (Some (JobItem_new sample_record),
        \<lparr>queue = [JobItem_new second_record], dead_letter = []\<rparr>)"
    using requeue_goes_to_the_tail [THEN conjunct2, THEN conjunct1,
        of "\<lparr>queue = [JobItem_new sample_record, JobItem_new second_record], dead_letter = []\<rparr>"
           "JobItem_new sample_record" "[JobItem_new second_record]"]
    by simp
  have d: "(0::nat) < 1 \<and> 1 < length (valid_records sample_results) \<and>
      snd (snd (tagged_log scripted [Returned False, Returned True, Raised] sample_results ! 0))
        = Returned False \<and>
      snd (snd (tagged_log scripted [Returned False, Returned True, Raised] sample_results ! 1))
        = Returned True"
    by (simp add: sample_results_valid sample_tagged_log)
  from inst have "\<forall>i k. i < k \<and> k < length (valid_records sample_results) \<and>
      snd (snd (tagged_log scripted [Returned False, Returned True, Raised] sample_results ! i))
        = Returned False \<and>
      snd (snd (tagged_log scripted [Returned False, Returned True, Raised] sample_results ! k))
        = Returned True \<longrightarrow>
      (\<exists>p. k < p \<and>
         p < length (tagged_log scripted [Returned False, Returned True, Raised] sample_results) \<and>
         fst (tagged_log scripted [Returned False, Returned True, Raised] sample_results ! p) = i \<and>
         fst (snd (tagged_log scripted [Returned False, Returned True, Raised] sample_results ! p))
           = bump (JobItem_new (valid_records sample_results ! i)) retry_message)"
    by blast
  with d have e: "\<exists>p. 1 < p \<and>
      p < length (tagged_log scripted [Returned False, Returned True, Raised] sample_results) \<and>
      fst (tagged_log scripted [Returned False, Returned True, Raised] sample_results ! p) = 0 \<and>
      fst (snd (tagged_log scripted [Returned False, Returned True, Raised] sample_results ! p))
        = bump (JobItem_new (valid_records sample_results ! 0)) retry_message"
    by blast
  from a b c d sample_tagged_log e show ?thesis by blast
qed

subsection \<open>Every job ends once\<close>

text \<open>
  C2. After a batch, whatever the worker does, the number of successes plus the number
  of failed jobs is the number of valid results, that is of jobs enqueued, and the
  queue is empty. Job by job: the successes counted and the entries of
  \<open>failed_jobs\<close>, each with the number of its job, carry every number from 0 to
  \<open>n - 1\<close> exactly once, and the entry under a number has the record enqueued at
  that position.
\<close>

theorem every_job_ends_once:
  "success_count (batch_report f w results) + int (length (failed_jobs (batch_report f w results)))
     = int (length (valid_records results)) \<and>
   queue (batch_queue f w results) = [] \<and>
   map snd (tagged_log f w results) = batch_log f w results \<and>
   success_count (batch_report f w results)
     = int (length (tagged_succeeded (tagged_log f w results))) \<and>
   failed_jobs (batch_report f w results) = map snd (tagged_failed (tagged_log f w results)) \<and>
   mset (map fst (tagged_succeeded (tagged_log f w results))) +
     mset (map fst (tagged_failed (tagged_log f w results)))
     = mset [0..<length (valid_records results)] \<and>
   (\<forall>e \<in> set (tagged_succeeded (tagged_log f w results)) \<union>
           set (tagged_failed (tagged_log f w results)).
      fst e < length (valid_records results) \<and>
      job_record (snd e) = valid_records results ! fst e)"
proof -
  let ?tl = "tagged_log f w results"
  have "size (mset (map fst (tagged_succeeded ?tl)) + mset (map fst (tagged_failed ?tl)))
      = size (mset [0..<length (valid_records results)])"
    by (simp only: tagged_log_ends)
  then have "length (tagged_succeeded ?tl) + length (tagged_failed ?tl)
      = length (valid_records results)"
    by simp
  moreover have "length (failed_jobs (batch_report f w results)) = length (tagged_failed ?tl)"
    by (simp add: tagged_failed_report [symmetric])
  ultimately have count: "success_count (batch_report f w results) +
      int (length (failed_jobs (batch_report f w results))) = int (length (valid_records results))"
    by (simp add: tagged_succeeded_report [symmetric])
  have recs: "\<forall>e \<in> set (tagged_succeeded ?tl) \<union> set (tagged_failed ?tl).
      fst e < length (valid_records results) \<and>
      job_record (snd e) = valid_records results ! fst e"
  proof
    fix e assume "e \<in> set (tagged_succeeded ?tl) \<union> set (tagged_failed ?tl)"
    then have "(fst e, snd e) \<in> set (tagged_succeeded ?tl) \<union> set (tagged_failed ?tl)"
      by simp
    then show "fst e < length (valid_records results) \<and>
        job_record (snd e) = valid_records results ! fst e"
      by (rule tagged_counted_record)
  qed
  have empty: "queue (batch_queue f w results) = []"
    by (simp add: batch_queue_eq)
  from count empty tagged_log_erase [of f w results] tagged_succeeded_report [of f w results, symmetric]
    tagged_failed_report [of f w results, symmetric] tagged_log_ends [of f w results] recs
  show ?thesis by (intro conjI)
qed

theorem every_job_ends_once_witness:
  "(0, bump (JobItem_new sample_record) retry_message)
     \<in> set (tagged_succeeded (tagged_log scripted [Returned False, Returned True, Raised] sample_results))
       \<union> set (tagged_failed (tagged_log scripted [Returned False, Returned True, Raised] sample_results)) \<and>
   (0::nat) < length (valid_records sample_results) \<and>
   job_record (bump (JobItem_new sample_record) retry_message) = valid_records sample_results ! 0 \<and>
   tagged_succeeded (tagged_log scripted [Returned False, Returned True, Raised] sample_results)
     = [(1, JobItem_new second_record)] \<and>
   tagged_failed (tagged_log scripted [Returned False, Returned True, Raised] sample_results)
     = [(0, bump (JobItem_new sample_record) retry_message)] \<and>
   success_count (batch_report scripted [Returned False, Returned True, Raised] sample_results) = 1 \<and>
   failed_jobs (batch_report scripted [Returned False, Returned True, Raised] sample_results)
     = [bump (JobItem_new sample_record) retry_message]"
proof -
  note inst = every_job_ends_once [of scripted "[Returned False, Returned True, Raised]"
      sample_results]
  have s: "tagged_succeeded (tagged_log scripted [Returned False, Returned True, Raised] sample_results)
     = [(1, JobItem_new second_record)]"
    by (simp add: sample_tagged_log tagged_succeeded_def)
  have f: "tagged_failed (tagged_log scripted [Returned False, Returned True, Raised] sample_results)
     = [(0, bump (JobItem_new sample_record) retry_message)]"
    by (simp add: sample_tagged_log tagged_failed_def tagged_raised_def tagged_dead_def
          is_exhausted_def bump_def JobItem_new_def)
  have mem: "(0, bump (JobItem_new sample_record) retry_message)
     \<in> set (tagged_succeeded (tagged_log scripted [Returned False, Returned True, Raised] sample_results))
       \<union> set (tagged_failed (tagged_log scripted [Returned False, Returned True, Raised] sample_results))"
    by (simp add: f)
  from inst have "\<forall>e \<in> set (tagged_succeeded
        (tagged_log scripted [Returned False, Returned True, Raised] sample_results)) \<union>
      set (tagged_failed (tagged_log scripted [Returned False, Returned True, Raised] sample_results)).
      fst e < length (valid_records sample_results) \<and>
      job_record (snd e) = valid_records sample_results ! fst e"
    by blast
  with mem have rec: "fst (0::nat, bump (JobItem_new sample_record) retry_message)
        < length (valid_records sample_results) \<and>
      job_record (snd (0::nat, bump (JobItem_new sample_record) retry_message))
        = valid_records sample_results ! fst (0::nat, bump (JobItem_new sample_record) retry_message)"
    by blast
  from inst s have sc: "success_count
      (batch_report scripted [Returned False, Returned True, Raised] sample_results) = 1"
    by simp
  from inst f have fj: "failed_jobs
      (batch_report scripted [Returned False, Returned True, Raised] sample_results)
     = [bump (JobItem_new sample_record) retry_message]"
    by simp
  from mem rec s f sc fj show ?thesis by simp
qed

subsection \<open>A fault of the worker\<close>

text \<open>
  C3. Let the worker raise on job \<open>i\<close>. The job is in \<open>failed_jobs\<close>, as it was
  dispatched and as the only entry of job \<open>i\<close>; the dead-letter list has no entry
  of job \<open>i\<close>; no later call is for job \<open>i\<close>. When no earlier call was for it
  either, so that this was its first dispatch, the job is as \<open>enqueue\<close> made it:
  no attempt counted, no message, and this call is the only one it ever received, so
  \<open>requeue\<close> was never called on it. The loop goes on to the end: the queue is
  empty and every job enqueued has been dispatched.
\<close>

theorem worker_fault_is_final:
  assumes "tagged_log f w results = pre @ (i, j, Raised) # post"
  shows "map snd (tagged_log f w results) = batch_log f w results \<and>
         map snd (tagged_failed (tagged_log f w results)) = failed_jobs (batch_report f w results) \<and>
         map snd (tagged_dead (tagged_log f w results)) = dead_letter (batch_queue f w results) \<and>
         i < length (valid_records results) \<and> job_record j = valid_records results ! i \<and>
         j \<in> set (failed_jobs (batch_report f w results)) \<and>
         filter (\<lambda>e. fst e = i) (tagged_failed (tagged_log f w results)) = [(i, j)] \<and>
         filter (\<lambda>e. fst e = i) (tagged_dead (tagged_log f w results)) = [] \<and>
         (\<forall>e \<in> set post. fst e \<noteq> i) \<and>
         ((\<forall>e \<in> set pre. fst e \<noteq> i) \<longrightarrow>
            j = JobItem_new (valid_records results ! i) \<and>
            attempts j = 0 \<and> error_messages j = [] \<and>
            calls_of i (tagged_log f w results) = [(j, Raised)]) \<and>
         queue (batch_queue f w results) = [] \<and>
         (\<forall>k < length (valid_records results). k \<in> fst ` set (tagged_log f w results))"
proof -
  let ?tl = "tagged_log f w results" and ?rs = "valid_records results"
  have in_log: "(i, j, Raised) \<in> set ?tl" by (simp add: assms)
  then have i: "i < length ?rs" using tagged_log_tag by fastforce
  have rec: "job_record j = ?rs ! i" using in_log by (rule tagged_log_record)
  have life: "lifecycle (JobItem_new (?rs ! i)) (calls_of i ?tl)"
    using i by (rule tagged_log_lifecycle)
  have split: "calls_of i ?tl = calls_of i pre @ (j, Raised) # calls_of i post"
    by (simp add: assms calls_of_Cons)
  from life have post: "calls_of i post = []"
    unfolding split by (rule lifecycle_ends) simp
  then have never: "\<forall>e \<in> set post. fst e \<noteq> i"
    by (auto simp: calls_of_def filter_empty_conv)
  have es: "calls_of i ?tl = calls_of i pre @ [(j, Raised)]"
    by (simp add: split post)
  have "length (succeeded_jobs (calls_of i ?tl)) + length (raised_jobs (calls_of i ?tl))
      + length (dead_jobs (calls_of i ?tl)) = 1"
    using life by (rule lifecycle_one_end)
  moreover have rj: "raised_jobs (calls_of i ?tl) = raised_jobs (calls_of i pre) @ [j]"
    by (simp add: es raised_jobs_def)
  ultimately have "raised_jobs (calls_of i pre) = []" and dj: "dead_jobs (calls_of i ?tl) = []"
    by simp_all
  with rj have "map snd (filter (\<lambda>e. fst e = i) (tagged_failed ?tl)) = [j]"
    and "map snd (filter (\<lambda>e. fst e = i) (tagged_dead ?tl)) = []"
    by (simp_all add: failed_of_tag dead_of_tag)
  then have failed: "filter (\<lambda>e. fst e = i) (tagged_failed ?tl) = [(i, j)]"
    and dead: "filter (\<lambda>e. fst e = i) (tagged_dead ?tl) = []"
    using filter_tag_eq [of i "tagged_failed ?tl"] by simp_all
  have "(i, j) \<in> set (filter (\<lambda>e. fst e = i) (tagged_failed ?tl))"
    by (simp only: failed) simp
  then have "(i, j) \<in> set (tagged_failed ?tl)" by simp
  then have "snd (i, j) \<in> set (map snd (tagged_failed ?tl))"
    by (simp only: set_map) (rule imageI)
  then have mem: "j \<in> set (failed_jobs (batch_report f w results))"
    by (simp add: tagged_failed_report)
  have first: "j = JobItem_new (?rs ! i) \<and> attempts j = 0 \<and> error_messages j = [] \<and>
      calls_of i ?tl = [(j, Raised)]"
    if "\<forall>e \<in> set pre. fst e \<noteq> i"
  proof -
    from that have "calls_of i pre = []"
      by (auto simp: calls_of_def filter_empty_conv)
    with es have only: "calls_of i ?tl = [(j, Raised)]" by simp
    with life have eq: "j = JobItem_new (?rs ! i)" by simp
    then have "attempts j = attempts (JobItem_new (?rs ! i)) \<and>
        error_messages j = error_messages (JobItem_new (?rs ! i))"
      by simp
    then have "attempts j = 0 \<and> error_messages j = []"
      by (simp add: JobItem_new_def)
    with only eq show ?thesis by simp
  qed
  have empty: "queue (batch_queue f w results) = []"
    by (simp add: batch_queue_eq)
  have all: "\<forall>k < length ?rs. k \<in> fst ` set ?tl"
  proof (intro allI impI)
    fix k assume "k < length ?rs"
    then have "(k, JobItem_new (?rs ! k)) \<in> set (List.enumerate 0 (map JobItem_new ?rs))"
      by (simp add: in_set_enumerate_eq)
    then show "k \<in> fst ` set ?tl"
      unfolding tagged_log_def by (rule every_tag_dispatched)
  qed
  from first have first': "(\<forall>e \<in> set pre. fst e \<noteq> i) \<longrightarrow>
      j = JobItem_new (?rs ! i) \<and> attempts j = 0 \<and> error_messages j = [] \<and>
      calls_of i ?tl = [(j, Raised)]"
    by (rule impI)
  from tagged_log_erase [of f w results] tagged_failed_report [of f w results]
    tagged_dead_queue [of f w results] i rec mem failed dead never first' empty all
  show ?thesis by (intro conjI)
qed

theorem worker_fault_is_final_witness:
  "tagged_log scripted [Raised, Returned False] sample_results
     = [] @ (0, JobItem_new sample_record, Raised) #
         [(1, JobItem_new second_record, Returned False),
          (1, bump (JobItem_new second_record) retry_message, Returned True)] \<and>
   JobItem_new sample_record
     \<in> set (failed_jobs (batch_report scripted [Raised, Returned False] sample_results)) \<and>
   filter (\<lambda>e. fst e = 0) (tagged_failed (tagged_log scripted [Raised, Returned False] sample_results))
     = [(0, JobItem_new sample_record)] \<and>
   attempts (JobItem_new sample_record) = 0 \<and> error_messages (JobItem_new sample_record) = [] \<and>
   calls_of 0 (tagged_log scripted [Raised, Returned False] sample_results)
     = [(JobItem_new sample_record, Raised)] \<and>
   queue (batch_queue scripted [Raised, Returned False] sample_results) = [] \<and>
   failed_jobs (batch_report scripted [Raised, Returned False] sample_results)
     = [JobItem_new sample_record] \<and>
   success_count (batch_report scripted [Raised, Returned False] sample_results) = 1"
proof -
  have log: "tagged_log scripted [Raised, Returned False] sample_results
     = [] @ (0, JobItem_new sample_record, Raised) #
         [(1, JobItem_new second_record, Returned False),
          (1, bump (JobItem_new second_record) retry_message, Returned True)]"
    by (simp add: tagged_log_def sample_results_valid requeued_def bump_def is_exhausted_def
          JobItem_new_def)
  note inst = worker_fault_is_final [OF log]
  have first: "\<forall>e \<in> set ([] :: (nat \<times> JobItem \<times> outcome) list). fst e \<noteq> 0"
    by simp
  from inst first
  have a: "JobItem_new sample_record
       \<in> set (failed_jobs (batch_report scripted [Raised, Returned False] sample_results))"
    and b: "filter (\<lambda>e. fst e = 0)
       (tagged_failed (tagged_log scripted [Raised, Returned False] sample_results))
       = [(0, JobItem_new sample_record)]"
    and c: "attempts (JobItem_new sample_record) = 0 \<and> error_messages (JobItem_new sample_record) = []"
    and d: "calls_of 0 (tagged_log scripted [Raised, Returned False] sample_results)
       = [(JobItem_new sample_record, Raised)]"
    and e: "queue (batch_queue scripted [Raised, Returned False] sample_results) = []"
    by blast+
  have "batch_log scripted [Raised, Returned False] sample_results
     = [(JobItem_new sample_record, Raised), (JobItem_new second_record, Returned False),
        (bump (JobItem_new second_record) retry_message, Returned True)]"
    using inst [THEN conjunct1] by (simp add: log)
  then have g: "failed_jobs (batch_report scripted [Raised, Returned False] sample_results)
     = [JobItem_new sample_record] \<and>
     success_count (batch_report scripted [Raised, Returned False] sample_results) = 1"
    by (simp add: batch_report_eq raised_jobs_def dead_jobs_def retried_jobs_def succeeded_jobs_def
          bump_def is_exhausted_def JobItem_new_def)
  from log a b c d e g show ?thesis by blast
qed

subsection \<open>A job that always fails\<close>

text \<open>
  C1, as the code has it. Let every call for job \<open>i\<close> return a retryable
  failure. The job is dispatched three times, with 0, 1 and 2 attempts counted;
  \<open>requeue\<close> puts it back on the queue twice and the third time moves it to the
  dead-letter list, from where it reaches \<open>failed_jobs\<close> with
  \<open>attempts = max_attempts = 3\<close> and three messages, one per call of
  \<open>requeue\<close>. \<open>retry_count\<close> is 3 plus the retryable failures of the other
  jobs, so 3 when the job is alone.
\<close>

theorem always_retry_job_is_dead_lettered:
  assumes "i < length (valid_records results)"
    and "\<forall>e \<in> set (calls_of i (tagged_log f w results)). snd e = Returned False"
  shows "map snd (tagged_log f w results) = batch_log f w results \<and>
         map snd (tagged_failed (tagged_log f w results)) = failed_jobs (batch_report f w results) \<and>
         map snd (tagged_dead (tagged_log f w results)) = dead_letter (batch_queue f w results) \<and>
         calls_of i (tagged_log f w results) =
           [(job_after (valid_records results ! i) 0, Returned False),
            (job_after (valid_records results ! i) 1, Returned False),
            (job_after (valid_records results ! i) 2, Returned False)] \<and>
         requeued_jobs (calls_of i (tagged_log f w results)) =
           [job_after (valid_records results ! i) 1, job_after (valid_records results ! i) 2] \<and>
         filter (\<lambda>e. fst e = i) (tagged_dead (tagged_log f w results))
           = [(i, job_after (valid_records results ! i) 3)] \<and>
         filter (\<lambda>e. fst e = i) (tagged_failed (tagged_log f w results))
           = [(i, job_after (valid_records results ! i) 3)] \<and>
         job_after (valid_records results ! i) 3 \<in> set (failed_jobs (batch_report f w results)) \<and>
         attempts (job_after (valid_records results ! i) 3) = 3 \<and>
         max_attempts (job_after (valid_records results ! i) 3) = 3 \<and>
         error_messages (job_after (valid_records results ! i) 3)
           = [retry_message, retry_message, retry_message] \<and>
         retry_count (batch_report f w results) =
           3 + int (length (filter (\<lambda>e. fst e \<noteq> i \<and> snd (snd e) = Returned False)
                      (tagged_log f w results))) \<and>
         (length (valid_records results) = 1 \<longrightarrow>
            retry_count (batch_report f w results) = 3 \<and>
            success_count (batch_report f w results) = 0 \<and>
            failed_jobs (batch_report f w results) = [job_after (valid_records results ! i) 3])"
proof -
  let ?tl = "tagged_log f w results" and ?r = "valid_records results ! i"
  have life: "lifecycle (job_after ?r 0) (calls_of i ?tl)"
    using tagged_log_lifecycle [OF assms(1), of f w] by (simp add: job_after_0)
  from life assms(2) have es: "calls_of i ?tl =
      [(job_after ?r 0, Returned False), (job_after ?r (Suc 0), Returned False),
       (job_after ?r (Suc (Suc 0)), Returned False)]"
    by (rule lifecycle_always_retry)
  have three: "job_after ?r (Suc (Suc (Suc 0))) = job_after ?r 3"
    by (simp add: numeral_3_eq_3)
  have two: "job_after ?r (Suc (Suc 0)) = job_after ?r 2"
    by (simp add: numeral_2_eq_2)
  from es two have es': "calls_of i ?tl =
      [(job_after ?r 0, Returned False), (job_after ?r 1, Returned False),
       (job_after ?r 2, Returned False)]"
    by simp
  have rq: "requeued_jobs (calls_of i ?tl) = [job_after ?r 1, job_after ?r 2]"
    by (simp add: es requeued_jobs_def retried_jobs_def bump_job_after exhausted_job_after two)
  have dj: "dead_jobs (calls_of i ?tl) = [job_after ?r 3]"
    by (simp add: es dead_jobs_def retried_jobs_def bump_job_after exhausted_job_after three)
  have rj: "raised_jobs (calls_of i ?tl) = []"
    by (simp add: es raised_jobs_def)
  have sj: "succeeded_jobs (calls_of i ?tl) = []"
    by (simp add: es succeeded_jobs_def)
  have rt: "length (retried_jobs (calls_of i ?tl)) = 3"
    by (simp add: es retried_jobs_def)
  have dl: "filter (\<lambda>e. fst e = i) (tagged_dead ?tl) = [(i, job_after ?r 3)]"
    using filter_tag_eq [of i "tagged_dead ?tl"] by (simp add: dead_of_tag dj)
  have fj: "filter (\<lambda>e. fst e = i) (tagged_failed ?tl) = [(i, job_after ?r 3)]"
    using filter_tag_eq [of i "tagged_failed ?tl"] by (simp add: failed_of_tag rj dj)
  have "(i, job_after ?r 3) \<in> set (filter (\<lambda>e. fst e = i) (tagged_failed ?tl))"
    by (simp only: fj) simp
  then have "(i, job_after ?r 3) \<in> set (tagged_failed ?tl)" by simp
  then have "snd (i, job_after ?r 3) \<in> set (map snd (tagged_failed ?tl))"
    by (simp only: set_map) (rule imageI)
  then have mem: "job_after ?r 3 \<in> set (failed_jobs (batch_report f w results))"
    by (simp add: tagged_failed_report)
  have vals: "attempts (job_after ?r 3) = 3" "max_attempts (job_after ?r 3) = 3"
      "error_messages (job_after ?r 3) = [retry_message, retry_message, retry_message]"
    by (simp_all add: job_after_def numeral_3_eq_3)
  have "retry_count (batch_report f w results) = int (length (retried_jobs (map snd ?tl)))"
    by (simp add: batch_report_eq tagged_log_erase)
  then have rc: "retry_count (batch_report f w results) =
      3 + int (length (filter (\<lambda>e. fst e \<noteq> i \<and> snd (snd e) = Returned False) ?tl))"
    using retried_of_tag [of ?tl i] rt by (simp add: retried_erase)
  have alone: "retry_count (batch_report f w results) = 3 \<and>
      success_count (batch_report f w results) = 0 \<and>
      failed_jobs (batch_report f w results) = [job_after ?r 3]"
    if "length (valid_records results) = 1"
  proof -
    have "fst e = i" if "e \<in> set ?tl" for e
      using tagged_log_tag [OF that] assms(1) \<open>length (valid_records results) = 1\<close> by simp
    then have "filter (\<lambda>e. fst e = i) ?tl = ?tl"
      by simp
    then have "calls_of i ?tl = map snd ?tl"
      by (simp add: calls_of_def)
    then have "calls_of i ?tl = batch_log f w results"
      by (simp add: tagged_log_erase)
    with rt sj rj dj show ?thesis
      by (simp add: batch_report_eq)
  qed
  from alone have alone': "length (valid_records results) = 1 \<longrightarrow>
      retry_count (batch_report f w results) = 3 \<and>
      success_count (batch_report f w results) = 0 \<and>
      failed_jobs (batch_report f w results) = [job_after ?r 3]"
    by (rule impI)
  from tagged_log_erase [of f w results] tagged_failed_report [of f w results]
    tagged_dead_queue [of f w results] es' rq dl fj mem vals rc alone'
  show ?thesis by (intro conjI)
qed

theorem always_retry_job_is_dead_lettered_witness:
  "(0::nat) < length (valid_records sample_results) \<and>
   valid_records sample_results ! 0 = sample_record \<and>
   tagged_log (retry_for sample_record) () sample_results =
     [(0, job_after sample_record 0, Returned False), (1, job_after second_record 0, Returned True),
      (0, job_after sample_record 1, Returned False), (0, job_after sample_record 2, Returned False)] \<and>
   calls_of 0 (tagged_log (retry_for sample_record) () sample_results) =
     [(job_after sample_record 0, Returned False), (job_after sample_record 1, Returned False),
      (job_after sample_record 2, Returned False)] \<and>
   requeued_jobs (calls_of 0 (tagged_log (retry_for sample_record) () sample_results))
     = [job_after sample_record 1, job_after sample_record 2] \<and>
   job_after sample_record 3
     \<in> set (failed_jobs (batch_report (retry_for sample_record) () sample_results)) \<and>
   retry_count (batch_report (retry_for sample_record) () sample_results) = 3"
proof -
  have i: "(0::nat) < length (valid_records sample_results)"
    and r: "valid_records sample_results ! 0 = sample_record"
    by (simp_all add: sample_results_valid)
  have log: "tagged_log (retry_for sample_record) () sample_results =
     [(0, job_after sample_record 0, Returned False), (1, job_after second_record 0, Returned True),
      (0, job_after sample_record 1, Returned False), (0, job_after sample_record 2, Returned False)]"
    using sample_records_differ sample_records_differ [symmetric]
    by (simp add: tagged_log_def sample_results_valid requeued_def bump_def is_exhausted_def
          JobItem_new_def retry_for_def job_after_def eval_nat_numeral)
  have hyp: "\<forall>e \<in> set (calls_of 0 (tagged_log (retry_for sample_record) () sample_results)).
      snd e = Returned False"
    by (simp add: log calls_of_def)
  note inst = always_retry_job_is_dead_lettered [OF i hyp, unfolded r]
  have others: "filter (\<lambda>e. fst e \<noteq> 0 \<and> snd (snd e) = Returned False)
      (tagged_log (retry_for sample_record) () sample_results) = []"
    by (simp add: log)
  have rc: "retry_count (batch_report (retry_for sample_record) () sample_results) = 3"
    using inst [THEN conjunct2, THEN conjunct2, THEN conjunct2, THEN conjunct2, THEN conjunct2,
        THEN conjunct2, THEN conjunct2, THEN conjunct2, THEN conjunct2, THEN conjunct2,
        THEN conjunct2, THEN conjunct1]
    by (simp only: others list.size of_nat_0 add_0_right)
  from i r log inst [THEN conjunct2, THEN conjunct2, THEN conjunct2, THEN conjunct1]
    inst [THEN conjunct2, THEN conjunct2, THEN conjunct2, THEN conjunct2, THEN conjunct1]
    inst [THEN conjunct2, THEN conjunct2, THEN conjunct2, THEN conjunct2, THEN conjunct2,
        THEN conjunct2, THEN conjunct2, THEN conjunct1] rc
  show ?thesis by (intro conjI)
qed

text \<open>
  C1, as stated, fails: with one valid record and a worker that always asks for a
  retry, the failed job carries three messages, not two, and \<open>retry_count\<close> ends
  at three, not two.
\<close>

theorem always_retry_counterexample:
  "valid_records [validate sample_today sample_record] = [sample_record] \<and>
   failed_jobs (batch_report always_retry () [validate sample_today sample_record])
     = [\<lparr>job_record = sample_record, attempts = 3, max_attempts = 3,
         error_messages = [retry_message, retry_message, retry_message]\<rparr>] \<and>
   length (error_messages
     (hd (failed_jobs (batch_report always_retry () [validate sample_today sample_record])))) = 3 \<and>
   length (error_messages
     (hd (failed_jobs (batch_report always_retry () [validate sample_today sample_record]))))
     \<noteq> 2 \<and>
   retry_count (batch_report always_retry () [validate sample_today sample_record]) = 3 \<and>
   retry_count (batch_report always_retry () [validate sample_today sample_record]) \<noteq> 2"
proof -
  have v: "valid_records [validate sample_today sample_record] = [sample_record]"
    by (simp add: valid_records_def validate_defs)
  have "batch_log always_retry () [validate sample_today sample_record] =
      [(job_after sample_record 0, Returned False), (job_after sample_record 1, Returned False),
       (job_after sample_record 2, Returned False)]"
    by (simp add: batch_eval v always_retry_def job_after_def eval_nat_numeral)
  then show ?thesis
    by (simp add: v batch_report_eq raised_jobs_def dead_jobs_def retried_jobs_def
          bump_def is_exhausted_def job_after_def eval_nat_numeral)
qed

subsection \<open>The attempts of a job\<close>

text \<open>
  C9. \<open>enqueue\<close> adds a job with no attempt counted and leaves the others as they
  are; \<open>dequeue\<close> hands out the head unchanged; \<open>requeue\<close> stores the job with
  one attempt more, on the queue or on the dead-letter list, and changes nothing
  else. In a batch every call is for one of the jobs enqueued; the successive calls
  for a job show 0, 1, 2, ... attempts; and an entry of \<open>failed_jobs\<close> has as many
  attempts as the worker asked retries for its job, that is as \<open>requeue\<close> was
  called on it.
\<close>

theorem attempts_only_grow:
  "queue (enqueue Q r) = queue Q @ [JobItem_new r] \<and>
   dead_letter (enqueue Q r) = dead_letter Q \<and>
   attempts (JobItem_new r) = 0 \<and>
   (queue Q = h # js \<longrightarrow> dequeue Q = (Some h, Q\<lparr>queue := js\<rparr>)) \<and>
   (queue Q = [] \<longrightarrow> dequeue Q = (None, Q)) \<and>
   requeue Q job m =
     (if is_exhausted (bump job m) then Q\<lparr>dead_letter := dead_letter Q @ [bump job m]\<rparr>
      else Q\<lparr>queue := queue Q @ [bump job m]\<rparr>) \<and>
   attempts (bump job m) = attempts job + 1 \<and>
   job_record (bump job m) = job_record job \<and>
   max_attempts (bump job m) = max_attempts job \<and>
   map snd (tagged_log f w results) = batch_log f w results \<and>
   failed_jobs (batch_report f w results) = map snd (tagged_failed (tagged_log f w results)) \<and>
   (\<forall>e \<in> set (tagged_log f w results). fst e < length (valid_records results)) \<and>
   (\<forall>i < length (valid_records results).
      calls_of i (tagged_log f w results) \<noteq> [] \<and>
      map (\<lambda>e. attempts (fst e)) (calls_of i (tagged_log f w results))
        = map int [0..<length (calls_of i (tagged_log f w results))]) \<and>
   (\<forall>e \<in> set (tagged_failed (tagged_log f w results)).
      attempts (snd e) = int (length (retried_jobs (calls_of (fst e) (tagged_log f w results)))))"
proof -
  let ?tl = "tagged_log f w results" and ?rs = "valid_records results"
  have ops: "queue (enqueue Q r) = queue Q @ [JobItem_new r] \<and>
     dead_letter (enqueue Q r) = dead_letter Q \<and>
     attempts (JobItem_new r) = 0 \<and>
     (queue Q = h # js \<longrightarrow> dequeue Q = (Some h, Q\<lparr>queue := js\<rparr>)) \<and>
     (queue Q = [] \<longrightarrow> dequeue Q = (None, Q)) \<and>
     requeue Q job m =
       (if is_exhausted (bump job m) then Q\<lparr>dead_letter := dead_letter Q @ [bump job m]\<rparr>
        else Q\<lparr>queue := queue Q @ [bump job m]\<rparr>) \<and>
     attempts (bump job m) = attempts job + 1 \<and>
     job_record (bump job m) = job_record job \<and>
     max_attempts (bump job m) = max_attempts job"
    by (simp add: enqueue_def dequeue_def requeue_def bump_def JobItem_new_def Let_def)
  have tags: "\<forall>e \<in> set ?tl. fst e < length ?rs"
  proof
    fix e assume "e \<in> set ?tl"
    then show "fst e < length ?rs" by (rule tagged_log_tag)
  qed
  have calls: "\<forall>i < length ?rs. calls_of i ?tl \<noteq> [] \<and>
      map (\<lambda>e. attempts (fst e)) (calls_of i ?tl) = map int [0..<length (calls_of i ?tl)]"
  proof (intro allI impI)
    fix i assume "i < length ?rs"
    then have life: "lifecycle (JobItem_new (?rs ! i)) (calls_of i ?tl)"
      by (rule tagged_log_lifecycle)
    then have "calls_of i ?tl \<noteq> []" by auto
    moreover have "attempts (JobItem_new (?rs ! i)) = 0" by (simp add: JobItem_new_def)
    with lifecycle_attempts [OF life]
    have "map (\<lambda>e. attempts (fst e)) (calls_of i ?tl) = map int [0..<length (calls_of i ?tl)]"
      by simp
    ultimately show "calls_of i ?tl \<noteq> [] \<and>
      map (\<lambda>e. attempts (fst e)) (calls_of i ?tl) = map int [0..<length (calls_of i ?tl)]"
      by (rule conjI)
  qed
  have failed: "\<forall>e \<in> set (tagged_failed ?tl).
      attempts (snd e) = int (length (retried_jobs (calls_of (fst e) ?tl)))"
  proof
    fix e assume e: "e \<in> set (tagged_failed ?tl)"
    then have "(fst e, snd e) \<in> set (tagged_succeeded ?tl) \<union> set (tagged_failed ?tl)"
      by simp
    then have "fst e < length ?rs \<and> job_record (snd e) = ?rs ! fst e"
      by (rule tagged_counted_record)
    then have "fst e < length ?rs" by (rule conjunct1)
    then have life: "lifecycle (JobItem_new (?rs ! fst e)) (calls_of (fst e) ?tl)"
      by (rule tagged_log_lifecycle)
    from e have "e \<in> set (filter (\<lambda>x. fst x = fst e) (tagged_failed ?tl))"
      by simp
    then have "snd e \<in> set (map snd (filter (\<lambda>x. fst x = fst e) (tagged_failed ?tl)))"
      by (simp only: set_map) (rule imageI)
    then have "snd e \<in> set (raised_jobs (calls_of (fst e) ?tl) @ dead_jobs (calls_of (fst e) ?tl))"
      by (simp only: failed_of_tag)
    with lifecycle_failed_attempts [OF life]
    have "attempts (snd e) = attempts (JobItem_new (?rs ! fst e))
        + int (length (retried_jobs (calls_of (fst e) ?tl)))"
      by blast
    then show "attempts (snd e) = int (length (retried_jobs (calls_of (fst e) ?tl)))"
      by (simp add: JobItem_new_def)
  qed
  from ops tagged_log_erase [of f w results] tagged_failed_report [of f w results, symmetric]
    tags calls failed
  show ?thesis by (intro conjI) simp_all
qed

theorem attempts_only_grow_witness:
  "(0::nat) < length (valid_records sample_results) \<and>
   (0, bump (JobItem_new sample_record) retry_message)
     \<in> set (tagged_failed (tagged_log scripted [Returned False, Returned True, Raised] sample_results)) \<and>
   (0, JobItem_new sample_record, Returned False)
     \<in> set (tagged_log scripted [Returned False, Returned True, Raised] sample_results) \<and>
   calls_of 0 (tagged_log scripted [Returned False, Returned True, Raised] sample_results)
     = [(JobItem_new sample_record, Returned False),
        (bump (JobItem_new sample_record) retry_message, Raised)] \<and>
   map (\<lambda>e. attempts (fst e))
     (calls_of 0 (tagged_log scripted [Returned False, Returned True, Raised] sample_results))
     = [0, 1] \<and>
   attempts (bump (JobItem_new sample_record) retry_message) = 1 \<and>
   dequeue \<lparr>queue = [], dead_letter = []\<rparr> = (None, \<lparr>queue = [], dead_letter = []\<rparr>) \<and>
   dequeue \<lparr>queue = [JobItem_new sample_record], dead_letter = []\<rparr>
     = (Some (JobItem_new sample_record), \<lparr>queue = [], dead_letter = []\<rparr>)"
proof -
  note inst = attempts_only_grow [where results = sample_results and f = scripted
      and w = "[Returned False, Returned True, Raised]"]
  note tl = sample_tagged_log
  have i: "(0::nat) < length (valid_records sample_results)"
    by (simp add: sample_results_valid)
  have f: "(0, bump (JobItem_new sample_record) retry_message)
     \<in> set (tagged_failed (tagged_log scripted [Returned False, Returned True, Raised] sample_results))"
    by (simp add: tl tagged_failed_def tagged_raised_def)
  have l: "(0, JobItem_new sample_record, Returned False)
     \<in> set (tagged_log scripted [Returned False, Returned True, Raised] sample_results)"
    by (simp add: tl)
  have c: "calls_of 0 (tagged_log scripted [Returned False, Returned True, Raised] sample_results)
     = [(JobItem_new sample_record, Returned False),
        (bump (JobItem_new sample_record) retry_message, Raised)]"
    by (simp add: tl calls_of_def)
  have "\<forall>i < length (valid_records sample_results).
      calls_of i (tagged_log scripted [Returned False, Returned True, Raised] sample_results) \<noteq> [] \<and>
      map (\<lambda>e. attempts (fst e))
        (calls_of i (tagged_log scripted [Returned False, Returned True, Raised] sample_results))
        = map int [0..<length
            (calls_of i (tagged_log scripted [Returned False, Returned True, Raised] sample_results))]"
    using inst [where Q = "\<lparr>queue = [], dead_letter = []\<rparr>"] by blast
  with i have "map (\<lambda>e. attempts (fst e))
        (calls_of 0 (tagged_log scripted [Returned False, Returned True, Raised] sample_results))
        = map int [0..<length
            (calls_of 0 (tagged_log scripted [Returned False, Returned True, Raised] sample_results))]"
    by blast
  then have a: "map (\<lambda>e. attempts (fst e))
     (calls_of 0 (tagged_log scripted [Returned False, Returned True, Raised] sample_results))
     = [0, 1]"
    by (simp add: c)
  have "\<forall>e \<in> set (tagged_failed
        (tagged_log scripted [Returned False, Returned True, Raised] sample_results)).
      attempts (snd e) = int (length (retried_jobs (calls_of (fst e)
        (tagged_log scripted [Returned False, Returned True, Raised] sample_results))))"
    using inst [where Q = "\<lparr>queue = [], dead_letter = []\<rparr>"] by blast
  with f have "attempts (snd (0::nat, bump (JobItem_new sample_record) retry_message))
      = int (length (retried_jobs (calls_of (fst (0::nat, bump (JobItem_new sample_record) retry_message))
        (tagged_log scripted [Returned False, Returned True, Raised] sample_results))))"
    by blast
  then have b: "attempts (bump (JobItem_new sample_record) retry_message) = 1"
    by (simp add: c retried_jobs_def)
  have d: "dequeue \<lparr>queue = [], dead_letter = []\<rparr> = (None, \<lparr>queue = [], dead_letter = []\<rparr>)"
    using inst [where Q = "\<lparr>queue = [], dead_letter = []\<rparr>"] by simp
  have e: "dequeue \<lparr>queue = [JobItem_new sample_record], dead_letter = []\<rparr>
     = (Some (JobItem_new sample_record), \<lparr>queue = [], dead_letter = []\<rparr>)"
    using inst [where Q = "\<lparr>queue = [JobItem_new sample_record], dead_letter = []\<rparr>"
        and h = "JobItem_new sample_record" and js = "[]"]
    by simp
  from i f l c a b d e show ?thesis by (intro conjI)
qed

end
